theory Spec2Isabelle
  imports Complex_Main "HOL-Library.Word"
begin

unbundle bit_operations_syntax

section \<open>UCP wireup lane selection (src/ucp/wireup/select.c)\<close>

text \<open>
  A shallow embedding of the lane selector. Every C function of select.c that takes part
  in lane selection is a HOL function of the same name. Conventions:
  \<^item> 64-bit bitmaps (transport, device, memory-domain and address-index maps) are
    \<open>64 word\<close>; \<open>UCS_BIT i\<close> is \<open>1ul << i\<close>, with the shift count taken modulo 64.
  \<^item> Capability masks whose bit constants are declared outside select.c (interface flags,
    memory-domain flags, features, endpoint init flags, parameter field masks, resource
    flags) are sets over an enumeration of the flag names; \<open>ucs_test_all_flags f r\<close> is
    \<open>r \<subseteq> f\<close> and \<open>f & X\<close> is \<open>X \<in> f\<close>. Atomic operation masks are compared as a
    whole only and stay \<open>64 word\<close>.
  \<^item> \<open>double\<close> scores are idealised as \<open>real\<close>.
  \<^item> Small unsigned indices (\<open>ucp_rsc_index_t\<close>, \<open>ucp_lane_index_t\<close>, \<open>unsigned\<close>) are
    \<open>nat\<close>; the two places where the C code narrows a value to \<open>uint8_t\<close> (the
    priority sum and \<open>addr_indices\<close>) write the truncation out.
  \<^item> Always-enabled assertions (\<open>ucs_assert_always\<close>, \<open>ucs_assertv_always\<close>) abort, and
    so does an access beyond the end of a fixed-capacity array; both are values of type
    \<open>abort\<close>. Debug-only \<open>ucs_assert\<close> and all tracing, logging and diagnostic string
    building are left out.
  \<^item> Compile-time constants declared outside select.c (\<open>UCP_MAX_LANES\<close>,
    \<open>UCP_NULL_LANE\<close>, \<open>UCP_MAX_OP_MDS\<close>, the comparison epsilon) are fields of a
    record of constants that every function receives as its first argument.
\<close>

subsection \<open>Constants and flag universes\<close>

record ucp_constants =
  UCP_MAX_LANES :: nat
  UCP_NULL_LANE :: nat
  UCP_MAX_OP_MDS :: nat
  score_epsilon :: real

text \<open>
  The status codes that occur in select.c or in the description of its error handling;
  the selector itself returns \<open>UCS_OK\<close> and \<open>UCS_ERR_UNREACHABLE\<close> only.
\<close>

datatype ucs_status =
  UCS_OK | UCS_ERR_UNREACHABLE | UCS_ERR_UNSUPPORTED | UCS_ERR_INVALID_PARAM

datatype abort =
    Assert_dst_md_index
  | Assert_usage_overlap
  | Assert_proxy_changed
  | Lane_descs_out_of_bounds
  | Rma_bw_lanes_out_of_bounds

datatype uct_iface_flag =
    UCT_IFACE_FLAG_AM_SHORT | UCT_IFACE_FLAG_AM_BCOPY | UCT_IFACE_FLAG_AM_ZCOPY
  | UCT_IFACE_FLAG_PUT_SHORT | UCT_IFACE_FLAG_PUT_BCOPY | UCT_IFACE_FLAG_PUT_ZCOPY
  | UCT_IFACE_FLAG_GET_SHORT | UCT_IFACE_FLAG_GET_BCOPY | UCT_IFACE_FLAG_GET_ZCOPY
  | UCT_IFACE_FLAG_ERRHANDLE_PEER_FAILURE
  | UCT_IFACE_FLAG_CONNECT_TO_IFACE | UCT_IFACE_FLAG_CONNECT_TO_EP
  | UCT_IFACE_FLAG_AM_DUP
  | UCT_IFACE_FLAG_CB_SYNC | UCT_IFACE_FLAG_CB_ASYNC
  | UCT_IFACE_FLAG_EVENT_SEND_COMP | UCT_IFACE_FLAG_EVENT_RECV
  | UCT_IFACE_FLAG_EVENT_RECV_SIG
  | UCT_IFACE_FLAG_PENDING
  | UCT_IFACE_FLAG_TAG_EAGER_SHORT | UCT_IFACE_FLAG_TAG_EAGER_BCOPY
  | UCT_IFACE_FLAG_TAG_EAGER_ZCOPY | UCT_IFACE_FLAG_TAG_RNDV_ZCOPY

datatype uct_md_flag =
    UCT_MD_FLAG_ALLOC | UCT_MD_FLAG_REG | UCT_MD_FLAG_NEED_RKEY

datatype ucp_feature =
    UCP_FEATURE_TAG | UCP_FEATURE_RMA | UCP_FEATURE_AMO32 | UCP_FEATURE_AMO64
  | UCP_FEATURE_WAKEUP | UCP_FEATURE_STREAM | UCP_FEATURE_AM

datatype ucp_ep_init_flag = UCP_EP_INIT_FLAG_MEM_TYPE | UCP_EP_CREATE_AM_LANE

datatype ucp_ep_param_field =
    UCP_EP_PARAM_FIELD_ERR_HANDLING_MODE | UCP_EP_PARAM_FIELD_SOCK_ADDR

datatype ucp_err_handling_mode = UCP_ERR_HANDLING_MODE_NONE | UCP_ERR_HANDLING_MODE_PEER

datatype ucp_tl_rsc_flag = UCP_TL_RSC_FLAG_AUX

datatype uct_device_type =
    UCT_DEVICE_TYPE_NET | UCT_DEVICE_TYPE_SHM | UCT_DEVICE_TYPE_ACC | UCT_DEVICE_TYPE_SELF

text \<open>
  Modelled from the spec: the two event-capability masks of the worker
  (\<open>UCP_WORKER_UCT_RECV_EVENT_CAP_FLAGS\<close>, \<open>UCP_WORKER_UCT_UNSIG_EVENT_CAP_FLAGS\<close>) are
  declared outside select.c. The spec describes the first as the receive events, signaled
  and unsignaled, and the second as the unsignaled-event capability.
\<close>

definition UCP_WORKER_UCT_RECV_EVENT_CAP_FLAGS :: "uct_iface_flag set" where
  "UCP_WORKER_UCT_RECV_EVENT_CAP_FLAGS =
     {UCT_IFACE_FLAG_EVENT_RECV, UCT_IFACE_FLAG_EVENT_RECV_SIG}"

definition UCP_WORKER_UCT_UNSIG_EVENT_CAP_FLAGS :: "uct_iface_flag set" where
  "UCP_WORKER_UCT_UNSIG_EVENT_CAP_FLAGS =
     {UCT_IFACE_FLAG_EVENT_SEND_COMP, UCT_IFACE_FLAG_EVENT_RECV}"

text \<open>
  Modelled from the spec: the macro \<open>UCS_BIT\<close> is declared outside select.c; the spec
  speaks of bitmaps indexed by resource, device, memory domain and entry. The macro is
  \<open>1ul << i\<close>. C leaves a shift by 64 or more undefined; the shift instructions of x86-64
  and AArch64 take the count modulo 64, and so does the model, so that an index of 64 or
  more aliases the index 64 below it.
\<close>

definition UCS_BIT :: "nat \<Rightarrow> 64 word" where
  "UCS_BIT i = push_bit (i mod 64) 1"

text \<open>The lane usage bits are declared in select.c itself, as \<open>UCS_BIT 0 .. UCS_BIT 5\<close>.\<close>

definition UCP_WIREUP_LANE_USAGE_AM :: "32 word" where "UCP_WIREUP_LANE_USAGE_AM = 1"
definition UCP_WIREUP_LANE_USAGE_AM_BW :: "32 word" where "UCP_WIREUP_LANE_USAGE_AM_BW = 2"
definition UCP_WIREUP_LANE_USAGE_RMA :: "32 word" where "UCP_WIREUP_LANE_USAGE_RMA = 4"
definition UCP_WIREUP_LANE_USAGE_RMA_BW :: "32 word" where "UCP_WIREUP_LANE_USAGE_RMA_BW = 8"
definition UCP_WIREUP_LANE_USAGE_AMO :: "32 word" where "UCP_WIREUP_LANE_USAGE_AMO = 16"
definition UCP_WIREUP_LANE_USAGE_TAG :: "32 word" where "UCP_WIREUP_LANE_USAGE_TAG = 32"

definition ucs_test_all_flags :: "64 word \<Rightarrow> 64 word \<Rightarrow> bool" where
  "ucs_test_all_flags flags required \<longleftrightarrow> flags AND required = required"

definition ucs_for_each_bit :: "64 word \<Rightarrow> nat list" where
  "ucs_for_each_bit w = filter (bit w) [0..<64]"

definition ucs_popcount :: "64 word \<Rightarrow> nat" where
  "ucs_popcount w = length (ucs_for_each_bit w)"

subsection \<open>Data model\<close>

record ucp_tl_iface_atomic_flags =
  atomic32_op_flags :: "64 word"
  atomic32_fop_flags :: "64 word"
  atomic64_op_flags :: "64 word"
  atomic64_fop_flags :: "64 word"

record uct_ppn_bandwidth =
  dedicated :: real
  shared :: real

text \<open>Remote interface attributes and address entry (address.h).\<close>

record ucp_address_iface_attr =
  cap_flags :: "uct_iface_flag set"
  overhead :: real
  bandwidth :: uct_ppn_bandwidth
  priority :: int
  lat_ovh :: real
  atomic :: ucp_tl_iface_atomic_flags

record ucp_address_entry =
  iface_attr :: ucp_address_iface_attr
  md_flags :: "uct_md_flag set"
  tl_name_csum :: "16 word"
  md_index :: nat
  dev_index :: nat

text \<open>Local side: the fields of the context and worker that select.c reads.\<close>

record uct_iface_attr =
  if_cap_flags :: "uct_iface_flag set"
  if_cap_atomic :: ucp_tl_iface_atomic_flags
  if_cap_am_max_bcopy :: nat
  if_latency_overhead :: real
  if_latency_growth :: real
  if_bandwidth :: uct_ppn_bandwidth
  if_overhead :: real
  if_priority :: "8 word"

record uct_md_attr =
  md_cap_flags :: "uct_md_flag set"
  reg_cost_overhead :: real
  reg_cost_growth :: real

record ucp_tl_resource_desc =
  tl_name :: string
  dev_type :: uct_device_type
  rsc_md_index :: nat
  rsc_dev_index :: nat
  rsc_flags :: "ucp_tl_rsc_flag set"

record ucp_context =
  tl_bitmap :: "64 word"
  tl_rscs :: "ucp_tl_resource_desc list"
  tl_mds :: "uct_md_attr list"
  mem_type_access_tls :: "64 word list"
  config_features :: "ucp_feature set"
  config_est_num_eps :: nat
  config_max_eager_lanes :: nat
  config_max_rndv_lanes :: nat
  atomic_iface_flags :: ucp_tl_iface_atomic_flags
  tl_iface_bandwidth :: "uct_ppn_bandwidth \<Rightarrow> real"

record ucp_worker =
  wcontext :: ucp_context
  ifaces :: "uct_iface_attr list"
  atomic_tls :: "64 word"
  is_tl_p2p :: "nat \<Rightarrow> bool"
  is_reachable :: "nat \<Rightarrow> ucp_address_entry \<Rightarrow> bool"

record ucp_ep_params =
  field_mask :: "ucp_ep_param_field set"
  err_mode :: ucp_err_handling_mode

text \<open>
  The fields of the context that stand for helpers declared outside select.c:
  \<open>atomic_iface_flags\<close> is what \<open>ucp_context_uct_atomic_iface_flags\<close> writes,
  \<open>tl_iface_bandwidth\<close> is \<open>ucp_tl_iface_bandwidth\<close>; on the worker, \<open>is_tl_p2p\<close> is
  \<open>ucp_worker_is_tl_p2p\<close> and \<open>is_reachable\<close> is \<open>ucp_wireup_is_reachable\<close>.
  \<open>num_tls\<close> is the length of \<open>tl_rscs\<close>, and \<open>ucp_worker_iface_get_attr\<close> reads
  \<open>ifaces\<close>.
\<close>

definition num_tls :: "ucp_context \<Rightarrow> nat" where
  "num_tls ctx = length (tl_rscs ctx)"

definition ucp_worker_iface_get_attr :: "ucp_worker \<Rightarrow> nat \<Rightarrow> uct_iface_attr" where
  "ucp_worker_iface_get_attr worker rsc_index = ifaces worker ! rsc_index"

record ucp_wireup_criteria =
  local_md_flags :: "uct_md_flag set"
  remote_md_flags :: "uct_md_flag set"
  local_iface_flags :: "uct_iface_flag set"
  remote_iface_flags :: "uct_iface_flag set"
  local_atomic_flags :: ucp_tl_iface_atomic_flags
  remote_atomic_flags :: ucp_tl_iface_atomic_flags
  calc_score ::
    "ucp_context \<Rightarrow> uct_md_attr \<Rightarrow> uct_iface_attr \<Rightarrow> ucp_address_iface_attr \<Rightarrow> real"
  tl_rsc_flags :: "ucp_tl_rsc_flag set"

record ucp_wireup_select_info =
  score :: real
  addr_index :: nat
  rsc_index :: nat

record ucp_wireup_lane_desc =
  ld_rsc_index :: nat
  ld_addr_index :: nat
  proxy_lane :: nat
  dst_md_index :: nat
  usage :: "32 word"
  am_bw_score :: real
  rma_score :: real
  rma_bw_score :: real
  amo_score :: real

record ucp_wireup_select_bw_info =
  bw_criteria :: ucp_wireup_criteria
  bw_local_dev_bitmap :: "64 word"
  bw_remote_dev_bitmap :: "64 word"
  bw_md_map :: "64 word"
  bw_usage :: "32 word"
  bw_max_lanes :: nat

text \<open>
  The selection context. \<open>lane_descs\<close> holds the used prefix of the C array, so
  \<open>num_lanes\<close> is its length and \<open>address_count\<close> is the length of \<open>address_list\<close>.
\<close>

record ucp_wireup_select_ctx =
  ep :: ucp_worker
  params :: ucp_ep_params
  ep_init_flags :: "ucp_ep_init_flag set"
  address_list :: "ucp_address_entry list"
  lane_descs :: "ucp_wireup_lane_desc list"
  allow_am :: bool
  am_info :: ucp_wireup_select_info

definition num_lanes :: "ucp_wireup_select_ctx \<Rightarrow> nat" where
  "num_lanes select_ctx = length (lane_descs select_ctx)"

definition address_count :: "ucp_wireup_select_ctx \<Rightarrow> nat" where
  "address_count select_ctx = length (address_list select_ctx)"

subsection \<open>Score comparison\<close>

text \<open>
  Modelled from the spec: \<open>ucp_calc_epsilon\<close> is declared outside select.c. The spec
  gives the tolerance as epsilon times the largest of the two magnitudes and one.
\<close>

definition ucp_calc_epsilon :: "ucp_constants \<Rightarrow> real \<Rightarrow> real \<Rightarrow> real" where
  "ucp_calc_epsilon K val1 val2 = score_epsilon K * max (max \<bar>val1\<bar> \<bar>val2\<bar>) 1"

definition ucs_signum :: "real \<Rightarrow> int" where
  "ucs_signum x = (if x < 0 then -1 else if x > 0 then 1 else 0)"

definition ucp_wireup_score_cmp :: "ucp_constants \<Rightarrow> real \<Rightarrow> real \<Rightarrow> int" where
  "ucp_wireup_score_cmp K score1 score2 =
     (let diff = score1 - score2
      in if \<bar>diff\<bar> < ucp_calc_epsilon K score1 score2 then 0 else ucs_signum diff)"

subsection \<open>The criteria evaluator: \<open>ucp_wireup_select_transport\<close>\<close>

text \<open>First loop: which remote addresses satisfy the criteria.\<close>

definition remote_addr_ok ::
  "ucp_wireup_criteria \<Rightarrow> 64 word \<Rightarrow> 64 word \<Rightarrow> ucp_address_entry \<Rightarrow> bool" where
  "remote_addr_ok criteria remote_md_map remote_dev_bitmap ae \<longleftrightarrow>
     (if remote_dev_bitmap AND UCS_BIT (dev_index ae) = 0 then False
      else if remote_md_map AND UCS_BIT (md_index ae) = 0 then False
      else if \<not> remote_md_flags criteria \<subseteq> md_flags ae then False
      else if \<not> remote_iface_flags criteria \<subseteq> cap_flags (iface_attr ae) then False
      else if \<not> ucs_test_all_flags (atomic32_op_flags (atomic (iface_attr ae)))
                  (atomic32_op_flags (remote_atomic_flags criteria)) then False
      else if \<not> ucs_test_all_flags (atomic64_op_flags (atomic (iface_attr ae)))
                  (atomic64_op_flags (remote_atomic_flags criteria)) then False
      else if \<not> ucs_test_all_flags (atomic32_fop_flags (atomic (iface_attr ae)))
                  (atomic32_fop_flags (remote_atomic_flags criteria)) then False
      else if \<not> ucs_test_all_flags (atomic64_fop_flags (atomic (iface_attr ae)))
                  (atomic64_fop_flags (remote_atomic_flags criteria)) then False
      else True)"

fun addr_index_map_loop ::
  "ucp_wireup_criteria \<Rightarrow> 64 word \<Rightarrow> 64 word \<Rightarrow> ucp_address_entry list \<Rightarrow> nat list
     \<Rightarrow> 64 word \<Rightarrow> 64 word" where
  "addr_index_map_loop criteria remote_md_map remote_dev_bitmap al [] m = m"
| "addr_index_map_loop criteria remote_md_map remote_dev_bitmap al (i # is) m =
     addr_index_map_loop criteria remote_md_map remote_dev_bitmap al is
       (if remote_addr_ok criteria remote_md_map remote_dev_bitmap (al ! i)
        then m OR UCS_BIT i else m)"

text \<open>Second loop: the local resources, and for each the surviving remote addresses.\<close>

record select_best =
  found :: bool
  best_score :: real
  best_rsc_index :: nat
  best_dst_addr_index :: nat
  best_score_priority :: "8 word"

definition local_rsc_ok ::
  "ucp_worker \<Rightarrow> ucp_wireup_criteria \<Rightarrow> 64 word \<Rightarrow> 64 word \<Rightarrow> nat \<Rightarrow> bool" where
  "local_rsc_ok worker criteria tl_bitmap' local_dev_bitmap rsc_idx \<longleftrightarrow>
     (let ctx = wcontext worker;
          rsc = tl_rscs ctx ! rsc_idx;
          ifattr = ucp_worker_iface_get_attr worker rsc_idx;
          mdattr = tl_mds ctx ! rsc_md_index rsc
      in if UCP_TL_RSC_FLAG_AUX \<in> rsc_flags rsc \<and>
            UCP_TL_RSC_FLAG_AUX \<notin> tl_rsc_flags criteria then False
         else if \<not> local_md_flags criteria \<subseteq> md_cap_flags mdattr \<or>
                 \<not> local_iface_flags criteria \<subseteq> if_cap_flags ifattr \<or>
                 \<not> ucs_test_all_flags (atomic32_op_flags (if_cap_atomic ifattr))
                     (atomic32_op_flags (local_atomic_flags criteria)) \<or>
                 \<not> ucs_test_all_flags (atomic64_op_flags (if_cap_atomic ifattr))
                     (atomic64_op_flags (local_atomic_flags criteria)) \<or>
                 \<not> ucs_test_all_flags (atomic32_fop_flags (if_cap_atomic ifattr))
                     (atomic32_fop_flags (local_atomic_flags criteria)) \<or>
                 \<not> ucs_test_all_flags (atomic64_fop_flags (if_cap_atomic ifattr))
                     (atomic64_fop_flags (local_atomic_flags criteria)) then False
         else if tl_bitmap' AND UCS_BIT rsc_idx = 0 then False
         else if local_dev_bitmap AND UCS_BIT (rsc_dev_index rsc) = 0 then False
         else True)"

definition pair_score ::
  "ucp_worker \<Rightarrow> ucp_wireup_criteria \<Rightarrow> nat \<Rightarrow> ucp_address_entry \<Rightarrow> real" where
  "pair_score worker criteria rsc_idx ae =
     (let ctx = wcontext worker
      in calc_score criteria ctx (tl_mds ctx ! rsc_md_index (tl_rscs ctx ! rsc_idx))
           (ucp_worker_iface_get_attr worker rsc_idx) (iface_attr ae))"

definition pair_priority :: "ucp_worker \<Rightarrow> nat \<Rightarrow> ucp_address_entry \<Rightarrow> 8 word" where
  "pair_priority worker rsc_idx ae =
     word_of_int (uint (if_priority (ucp_worker_iface_get_attr worker rsc_idx))
                  + priority (iface_attr ae))"

fun addr_scan_loop ::
  "ucp_constants \<Rightarrow> ucp_worker \<Rightarrow> ucp_wireup_criteria \<Rightarrow> ucp_address_entry list
     \<Rightarrow> 64 word \<Rightarrow> nat \<Rightarrow> nat list \<Rightarrow> select_best \<Rightarrow> select_best" where
  "addr_scan_loop K worker criteria al addr_index_map rsc_idx [] b = b"
| "addr_scan_loop K worker criteria al addr_index_map rsc_idx (i # is) b =
     addr_scan_loop K worker criteria al addr_index_map rsc_idx is
       (if addr_index_map AND UCS_BIT i = 0 \<or> \<not> is_reachable worker rsc_idx (al ! i)
        then b
        else let s = pair_score worker criteria rsc_idx (al ! i);
                 p = pair_priority worker rsc_idx (al ! i)
             in if \<not> found b \<or>
                   ucp_wireup_score_cmp K s (best_score b) > 0 \<or>
                   (ucp_wireup_score_cmp K s (best_score b) = 0 \<and>
                    p > best_score_priority b)
                then \<lparr>found = True, best_score = s, best_rsc_index = rsc_idx,
                      best_dst_addr_index = i, best_score_priority = p\<rparr>
                else b)"

fun rsc_scan_loop ::
  "ucp_constants \<Rightarrow> ucp_worker \<Rightarrow> ucp_wireup_criteria \<Rightarrow> ucp_address_entry list
     \<Rightarrow> 64 word \<Rightarrow> 64 word \<Rightarrow> 64 word \<Rightarrow> nat list \<Rightarrow> select_best \<Rightarrow> select_best" where
  "rsc_scan_loop K worker criteria al addr_index_map tl_bitmap' local_dev_bitmap [] b = b"
| "rsc_scan_loop K worker criteria al addr_index_map tl_bitmap' local_dev_bitmap (r # rs) b =
     rsc_scan_loop K worker criteria al addr_index_map tl_bitmap' local_dev_bitmap rs
       (if local_rsc_ok worker criteria tl_bitmap' local_dev_bitmap r
        then addr_scan_loop K worker criteria al addr_index_map r [0..<length al] b
        else b)"

definition select_best_init :: select_best where
  "select_best_init = \<lparr>found = False, best_score = 0, best_rsc_index = 0,
                        best_dst_addr_index = 0, best_score_priority = 0\<rparr>"

definition ucp_wireup_select_transport ::
  "ucp_constants \<Rightarrow> ucp_worker \<Rightarrow> ucp_address_entry list \<Rightarrow> ucp_wireup_criteria
     \<Rightarrow> 64 word \<Rightarrow> 64 word \<Rightarrow> 64 word \<Rightarrow> 64 word
     \<Rightarrow> ucs_status \<times> ucp_wireup_select_info" where
  "ucp_wireup_select_transport K worker al criteria tl_bitmap' remote_md_map
       local_dev_bitmap remote_dev_bitmap =
     (let addr_index_map =
            addr_index_map_loop criteria remote_md_map remote_dev_bitmap al [0..<length al] 0;
          b = (if addr_index_map = 0 then select_best_init
               else rsc_scan_loop K worker criteria al addr_index_map tl_bitmap'
                      local_dev_bitmap (ucs_for_each_bit (tl_bitmap (wcontext worker)))
                      select_best_init);
          select_info = \<lparr>score = best_score b, addr_index = best_dst_addr_index b,
                          rsc_index = best_rsc_index b\<rparr>
      in if \<not> found b then (UCS_ERR_UNREACHABLE, select_info) else (UCS_OK, select_info))"

subsection \<open>The lane table: \<open>ucp_wireup_add_lane_desc\<close>\<close>

text \<open>
  The scan over the existing lanes leaves in one of four ways: an always-enabled
  assertion fails, \<open>goto out_add_lane\<close> with the proxy lane found,
  \<open>goto out_update_score\<close> at the lane that was merged into, or the loop runs to its end
  (with \<open>proxy_changed\<close>). The scan may repoint self-proxies on its way.
\<close>

datatype lane_scan =
    Scan_abort abort
  | Out_add_lane nat "ucp_wireup_lane_desc list"
  | Out_update_score nat "ucp_wireup_lane_desc list"
  | Scan_end "ucp_wireup_lane_desc list" bool

fun lane_scan_loop ::
  "ucp_constants \<Rightarrow> ucp_wireup_select_info \<Rightarrow> nat \<Rightarrow> 32 word \<Rightarrow> bool \<Rightarrow> nat \<Rightarrow> nat list
     \<Rightarrow> ucp_wireup_lane_desc list \<Rightarrow> bool \<Rightarrow> lane_scan" where
  "lane_scan_loop K info dst_md usg is_proxy n [] descs proxy_changed =
     Scan_end descs proxy_changed"
| "lane_scan_loop K info dst_md usg is_proxy n (lane # rest) descs proxy_changed =
     (let d = descs ! lane
      in if ld_rsc_index d = rsc_index info \<and> ld_addr_index d = addr_index info
         then if dst_md \<noteq> dst_md_index d then Scan_abort Assert_dst_md_index
              else if usage d AND usg \<noteq> 0 then Scan_abort Assert_usage_overlap
              else if is_proxy \<and> proxy_lane d = UCP_NULL_LANE K
                then Out_add_lane lane descs
              else if \<not> is_proxy \<and> proxy_lane d = lane
                then lane_scan_loop K info dst_md usg is_proxy n rest
                       (descs[lane := d\<lparr>proxy_lane := n\<rparr>]) True
              else if \<not> is_proxy \<and> proxy_lane d = UCP_NULL_LANE K
                then if proxy_changed then Scan_abort Assert_proxy_changed
                     else Out_update_score lane (descs[lane := d\<lparr>usage := usage d OR usg\<rparr>])
              else lane_scan_loop K info dst_md usg is_proxy n rest descs proxy_changed
         else lane_scan_loop K info dst_md usg is_proxy n rest descs proxy_changed)"

definition update_score ::
  "ucp_wireup_select_info \<Rightarrow> 32 word \<Rightarrow> ucp_wireup_lane_desc \<Rightarrow> ucp_wireup_lane_desc" where
  "update_score info usg d =
     (let d1 = (if usg AND UCP_WIREUP_LANE_USAGE_AM_BW \<noteq> 0
                then d\<lparr>am_bw_score := score info\<rparr> else d);
          d2 = (if usg AND UCP_WIREUP_LANE_USAGE_RMA \<noteq> 0
                then d1\<lparr>rma_score := score info\<rparr> else d1);
          d3 = (if usg AND UCP_WIREUP_LANE_USAGE_RMA_BW \<noteq> 0
                then d2\<lparr>rma_bw_score := score info\<rparr> else d2)
      in if usg AND UCP_WIREUP_LANE_USAGE_AMO \<noteq> 0
         then d3\<lparr>amo_score := score info\<rparr> else d3)"

text \<open>
  \<open>out_add_lane\<close>: the new descriptor is written at index \<open>num_lanes\<close> of an array of
  \<open>UCP_MAX_LANES\<close> slots; the C code does not check the index.
\<close>

definition out_add_lane ::
  "ucp_constants \<Rightarrow> ucp_wireup_select_ctx \<Rightarrow> ucp_wireup_lane_desc list
     \<Rightarrow> ucp_wireup_select_info \<Rightarrow> nat \<Rightarrow> 32 word \<Rightarrow> nat
     \<Rightarrow> abort + ucp_wireup_select_ctx" where
  "out_add_lane K select_ctx descs info dst_md usg pl =
     (if UCP_MAX_LANES K \<le> length descs then Inl Lane_descs_out_of_bounds
      else Inr (select_ctx\<lparr>lane_descs := descs @
             [update_score info usg
                \<lparr>ld_rsc_index = rsc_index info, ld_addr_index = addr_index info,
                 proxy_lane = pl, dst_md_index = dst_md, usage = usg,
                 am_bw_score = 0, rma_score = 0, rma_bw_score = 0, amo_score = 0\<rparr>]\<rparr>))"

definition ucp_wireup_add_lane_desc ::
  "ucp_constants \<Rightarrow> ucp_wireup_select_ctx \<Rightarrow> ucp_wireup_select_info \<Rightarrow> nat \<Rightarrow> 32 word
     \<Rightarrow> bool \<Rightarrow> abort + ucp_wireup_select_ctx" where
  "ucp_wireup_add_lane_desc K select_ctx info dst_md usg is_proxy =
     (let n = num_lanes select_ctx
      in case lane_scan_loop K info dst_md usg is_proxy n [0..<n]
                (lane_descs select_ctx) False of
           Scan_abort a \<Rightarrow> Inl a
         | Out_add_lane pl descs \<Rightarrow> out_add_lane K select_ctx descs info dst_md usg pl
         | Out_update_score lane descs \<Rightarrow>
             Inr (select_ctx\<lparr>lane_descs :=
                    descs[lane := update_score info usg (descs ! lane)]\<rparr>)
         | Scan_end descs proxy_changed \<Rightarrow>
             out_add_lane K select_ctx descs info dst_md usg
               (if is_proxy then n else UCP_NULL_LANE K))"

subsection \<open>Lane score comparison for sorting\<close>

text \<open>
  \<open>UCP_WIREUP_COMPARE_SCORE\<close>, with the score field as a parameter. Slots of the
  descriptor array beyond \<open>num_lanes\<close> were zero-filled by \<open>ucp_wireup_select_ctx_init\<close>.
\<close>

definition lane_score ::
  "ucp_constants \<Rightarrow> (ucp_wireup_lane_desc \<Rightarrow> real) \<Rightarrow> ucp_wireup_lane_desc list \<Rightarrow> nat
     \<Rightarrow> real" where
  "lane_score K fld lanes lane =
     (if lane = UCP_NULL_LANE K then 0
      else if lane < length lanes then fld (lanes ! lane) else 0)"

definition UCP_WIREUP_COMPARE_SCORE ::
  "ucp_constants \<Rightarrow> (ucp_wireup_lane_desc \<Rightarrow> real) \<Rightarrow> ucp_wireup_lane_desc list
     \<Rightarrow> nat \<Rightarrow> nat \<Rightarrow> int" where
  "UCP_WIREUP_COMPARE_SCORE K fld lanes lane1 lane2 =
     (let score1 = lane_score K fld lanes lane1;
          score2 = lane_score K fld lanes lane2
      in if score1 < score2 then 1 else if score1 > score2 then -1 else 0)"

subsection \<open>Memory-access lanes (RMA and AMO)\<close>

definition ucp_wireup_unset_tl_by_md :: "ucp_worker \<Rightarrow> 64 word \<Rightarrow> nat \<Rightarrow> 64 word" where
  "ucp_wireup_unset_tl_by_md worker tl_bitmap' rsc_idx =
     (let ctx = wcontext worker;
          md = rsc_md_index (tl_rscs ctx ! rsc_idx)
      in fold (\<lambda>i bm. if rsc_md_index (tl_rscs ctx ! i) = md
                       then bm AND NOT (UCS_BIT i) else bm)
           (ucs_for_each_bit (tl_bitmap ctx)) tl_bitmap')"

subsection \<open>Facts about the criteria evaluator\<close>

lemma bit64_lt: "bit (x :: 64 word) i \<Longrightarrow> i < 64"
  by (drule bit_imp_le_length) simp

lemma bit_UCS_BIT: "bit (UCS_BIT i) j \<longleftrightarrow> j = i mod 64"
  by (auto simp: UCS_BIT_def bit_simps)

lemma UCS_BIT_test: "x AND UCS_BIT i = 0 \<longleftrightarrow> \<not> bit x (i mod 64)"
proof
  assume h: "x AND UCS_BIT i = 0"
  show "\<not> bit x (i mod 64)"
  proof
    assume b: "bit x (i mod 64)"
    then have "bit (x AND UCS_BIT i) (i mod 64)" by (simp add: bit_and_iff bit_UCS_BIT)
    with h show False by simp
  qed
next
  assume "\<not> bit x (i mod 64)"
  then show "x AND UCS_BIT i = 0"
    by (intro bit_eqI) (auto simp: bit_and_iff bit_UCS_BIT)
qed

lemma bit_addr_index_map_loop:
  "bit (addr_index_map_loop c md rd al is m) k \<longleftrightarrow>
     bit m k \<or> (\<exists>i\<in>set is. i mod 64 = k \<and> remote_addr_ok c md rd (al ! i))"
  by (induction "is" arbitrary: m) (auto simp: bit_or_iff bit_UCS_BIT)

lemma found_addr_scan_loop:
  "found (addr_scan_loop K w c al m r is b) \<longleftrightarrow>
     found b \<or> (\<exists>i\<in>set is. bit m (i mod 64) \<and> is_reachable w r (al ! i))"
  by (induction "is" arbitrary: b) (auto simp: UCS_BIT_test Let_def)

lemma inv_addr_scan_loop:
  assumes "found b \<longrightarrow> Q (best_rsc_index b) (best_dst_addr_index b) (best_score b)"
    and "\<And>i. i \<in> set is \<Longrightarrow> bit m (i mod 64) \<Longrightarrow> is_reachable w r (al ! i)
           \<Longrightarrow> Q r i (pair_score w c r (al ! i))"
  shows "found (addr_scan_loop K w c al m r is b) \<longrightarrow>
         Q (best_rsc_index (addr_scan_loop K w c al m r is b))
           (best_dst_addr_index (addr_scan_loop K w c al m r is b))
           (best_score (addr_scan_loop K w c al m r is b))"
  using assms
  by (induction "is" arbitrary: b) (auto simp: UCS_BIT_test Let_def)

lemma found_rsc_scan_loop:
  "found (rsc_scan_loop K w c al m tlb ld rs b) \<longleftrightarrow>
     found b \<or> (\<exists>r\<in>set rs. local_rsc_ok w c tlb ld r \<and>
                  (\<exists>i<length al. bit m (i mod 64) \<and> is_reachable w r (al ! i)))"
  by (induction rs arbitrary: b) (auto simp: found_addr_scan_loop)

lemma inv_rsc_scan_loop:
  assumes "found b \<longrightarrow> Q (best_rsc_index b) (best_dst_addr_index b) (best_score b)"
    and "\<And>r i. r \<in> set rs \<Longrightarrow> local_rsc_ok w c tlb ld r \<Longrightarrow> i < length al
           \<Longrightarrow> bit m (i mod 64)
           \<Longrightarrow> is_reachable w r (al ! i) \<Longrightarrow> Q r i (pair_score w c r (al ! i))"
  shows "found (rsc_scan_loop K w c al m tlb ld rs b) \<longrightarrow>
         Q (best_rsc_index (rsc_scan_loop K w c al m tlb ld rs b))
           (best_dst_addr_index (rsc_scan_loop K w c al m tlb ld rs b))
           (best_score (rsc_scan_loop K w c al m tlb ld rs b))"
  using assms
proof (induction rs arbitrary: b)
  case Nil
  then show ?case by simp
next
  case (Cons r rs)
  show ?case
  proof (cases "local_rsc_ok w c tlb ld r")
    case True
    have "found (addr_scan_loop K w c al m r [0..<length al] b) \<longrightarrow>
         Q (best_rsc_index (addr_scan_loop K w c al m r [0..<length al] b))
           (best_dst_addr_index (addr_scan_loop K w c al m r [0..<length al] b))
           (best_score (addr_scan_loop K w c al m r [0..<length al] b))"
      by (rule inv_addr_scan_loop[where Q = Q]) (use True Cons.prems in auto)
    then show ?thesis
      using True Cons.IH[of "addr_scan_loop K w c al m r [0..<length al] b"] Cons.prems(2)
      by simp
  next
    case False
    then show ?thesis using Cons.IH[of b] Cons.prems by simp
  qed
qed

text \<open>
  A pair of a local resource and a remote address that the evaluator considers: the
  resource passes the local checks and reaches the entry, and the bit of the entry in the
  address index map is set. That bit is the index modulo 64, so beyond 64 entries it may
  have been set by another entry.
\<close>

definition pair_considered ::
  "ucp_worker \<Rightarrow> ucp_address_entry list \<Rightarrow> ucp_wireup_criteria \<Rightarrow> 64 word \<Rightarrow> 64 word
     \<Rightarrow> 64 word \<Rightarrow> 64 word \<Rightarrow> nat \<Rightarrow> nat \<Rightarrow> bool" where
  "pair_considered worker al criteria tl_bitmap' remote_md_map local_dev_bitmap
       remote_dev_bitmap r i \<longleftrightarrow>
     i < length al \<and>
     (\<exists>j<length al. j mod 64 = i mod 64 \<and>
        remote_addr_ok criteria remote_md_map remote_dev_bitmap (al ! j)) \<and>
     bit (tl_bitmap (wcontext worker)) r \<and>
     local_rsc_ok worker criteria tl_bitmap' local_dev_bitmap r \<and>
     is_reachable worker r (al ! i)"

lemma set_ucs_for_each_bit: "set (ucs_for_each_bit w) = {i. bit w i}"
  by (auto simp: ucs_for_each_bit_def dest: bit_imp_le_length)

lemma bit_addr_index_map:
  "bit (addr_index_map_loop c md rd al [0..<length al] 0) k \<longleftrightarrow>
     (\<exists>j<length al. j mod 64 = k \<and> remote_addr_ok c md rd (al ! j))"
  by (auto simp: bit_addr_index_map_loop)

lemma select_transport_status:
  "fst (ucp_wireup_select_transport K w al c tlb md ld rd) = UCS_OK \<longleftrightarrow>
     (\<exists>r i. pair_considered w al c tlb md ld rd r i)"
proof -
  let ?m = "addr_index_map_loop c md rd al [0..<length al] 0"
  note m = bit_addr_index_map[of c md rd al]
  show ?thesis
  proof (cases "?m = 0")
    case True
    then have "\<And>i. \<not> bit ?m i" by simp
    then have "\<not> (\<exists>r i. pair_considered w al c tlb md ld rd r i)"
      unfolding pair_considered_def using m by blast
    then show ?thesis using True
      by (simp add: ucp_wireup_select_transport_def Let_def select_best_init_def)
  next
    case False
    then show ?thesis
      by (auto simp: ucp_wireup_select_transport_def Let_def select_best_init_def
            found_rsc_scan_loop set_ucs_for_each_bit m pair_considered_def)
  qed
qed

lemma select_transport_OK:
  assumes "ucp_wireup_select_transport K w al c tlb md ld rd = (UCS_OK, info)"
  shows "pair_considered w al c tlb md ld rd (rsc_index info) (addr_index info) \<and>
         score info = pair_score w c (rsc_index info) (al ! addr_index info)"
proof -
  let ?m = "addr_index_map_loop c md rd al [0..<length al] 0"
  let ?b = "rsc_scan_loop K w c al ?m tlb ld (ucs_for_each_bit (tl_bitmap (wcontext w)))
              select_best_init"
  let ?Q = "\<lambda>r i s. pair_considered w al c tlb md ld rd r i \<and> s = pair_score w c r (al ! i)"
  note m = bit_addr_index_map[of c md rd al]
  have inv: "found ?b \<longrightarrow> ?Q (best_rsc_index ?b) (best_dst_addr_index ?b) (best_score ?b)"
    by (rule inv_rsc_scan_loop[where Q = ?Q])
       (auto simp: select_best_init_def set_ucs_for_each_bit m pair_considered_def)
  from assms have nz: "?m \<noteq> 0"
    by (auto simp: ucp_wireup_select_transport_def Let_def select_best_init_def
             split: if_splits)
  with assms have "found ?b" and "info = \<lparr>score = best_score ?b,
       addr_index = best_dst_addr_index ?b, rsc_index = best_rsc_index ?b\<rparr>"
    by (auto simp: ucp_wireup_select_transport_def Let_def split: if_splits)
  with inv show ?thesis by simp
qed

lemma select_transport_addr_index:
  "ucp_wireup_select_transport K w al c tlb md ld rd = (UCS_OK, info)
     \<Longrightarrow> addr_index info < length al"
  using select_transport_OK[of K w al c tlb md ld rd info] by (simp add: pair_considered_def)

lemma selected_rsc_bits:
  assumes "ucp_wireup_select_transport K w al c tlb md ld rd = (UCS_OK, info)"
  shows "bit tlb (rsc_index info)" "bit (tl_bitmap (wcontext w)) (rsc_index info)"
proof -
  from select_transport_OK[OF assms]
  have ps: "pair_considered w al c tlb md ld rd (rsc_index info) (addr_index info)" by simp
  then show b: "bit (tl_bitmap (wcontext w)) (rsc_index info)"
    by (simp add: pair_considered_def)
  then have "rsc_index info < 64" using bit_imp_le_length[of _ "rsc_index info"] by fastforce
  moreover from ps have "local_rsc_ok w c tlb ld (rsc_index info)"
    by (simp add: pair_considered_def)
  ultimately show "bit tlb (rsc_index info)"
    by (auto simp: local_rsc_ok_def Let_def UCS_BIT_test split: if_splits)
qed

text \<open>What \<open>ucp_wireup_unset_tl_by_md\<close> and the update of the remote MD map remove.\<close>

lemma bit_unset_tl_by_md_fold:
  "bit (fold (\<lambda>i bm. if rsc_md_index (rscs ! i) = md then bm AND NOT (UCS_BIT i) else bm)
          xs tlb) j \<longleftrightarrow>
     bit tlb j \<and> \<not> (\<exists>i\<in>set xs. i mod 64 = j \<and> rsc_md_index (rscs ! i) = md)"
proof (induction xs arbitrary: tlb)
  case Nil
  then show ?case by simp
next
  case (Cons x xs)
  show ?case
    by (auto simp: Cons.IH bit_and_iff bit_not_iff bit_UCS_BIT dest: bit64_lt)
qed

lemma bit_unset_tl_by_md:
  "bit (ucp_wireup_unset_tl_by_md w tlb r) j \<longleftrightarrow>
     bit tlb j \<and>
     \<not> (bit (tl_bitmap (wcontext w)) j \<and>
        rsc_md_index (tl_rscs (wcontext w) ! j) = rsc_md_index (tl_rscs (wcontext w) ! r))"
proof -
  have "(\<exists>i\<in>{i. bit (tl_bitmap (wcontext w)) i}. i mod 64 = j \<and> P i) \<longleftrightarrow>
        bit (tl_bitmap (wcontext w)) j \<and> P j" for P
  proof
    assume "\<exists>i\<in>{i. bit (tl_bitmap (wcontext w)) i}. i mod 64 = j \<and> P i"
    then obtain i where i: "bit (tl_bitmap (wcontext w)) i" "i mod 64 = j" "P i" by auto
    from bit64_lt[OF i(1)] i show "bit (tl_bitmap (wcontext w)) j \<and> P j" by simp
  next
    assume j: "bit (tl_bitmap (wcontext w)) j \<and> P j"
    then have "j mod 64 = j" using bit64_lt[of "tl_bitmap (wcontext w)" j] by simp
    with j show "\<exists>i\<in>{i. bit (tl_bitmap (wcontext w)) i}. i mod 64 = j \<and> P i" by auto
  qed
  then show ?thesis
    by (simp add: ucp_wireup_unset_tl_by_md_def Let_def bit_unset_tl_by_md_fold
          set_ucs_for_each_bit)
qed

lemma bit_unset_remote_md:
  "bit (m AND NOT (UCS_BIT d) :: 64 word) j \<longleftrightarrow> bit m j \<and> j \<noteq> d mod 64"
  by (auto simp: bit_and_iff bit_not_iff bit_UCS_BIT dest: bit64_lt)

lemma select_transport_status_cases:
  "fst (ucp_wireup_select_transport K w al c tlb md ld rd) = UCS_OK \<or>
   fst (ucp_wireup_select_transport K w al c tlb md ld rd) = UCS_ERR_UNREACHABLE"
  by (simp add: ucp_wireup_select_transport_def Let_def)

subsection \<open>The additional memory-access lanes terminate\<close>

lemma add_lane_desc_fields:
  assumes "ucp_wireup_add_lane_desc K s info dst_md usg prx = Inr s'"
  shows "ep s' = ep s" "params s' = params s" "ep_init_flags s' = ep_init_flags s"
    "address_list s' = address_list s" "allow_am s' = allow_am s" "am_info s' = am_info s"
  using assms
  by (auto simp: ucp_wireup_add_lane_desc_def out_add_lane_def Let_def
           split: lane_scan.splits if_splits)

text \<open>
  Every admitted selection takes its own local resource out of the transport bitmap, so the
  number of allowed resources of the context goes down.
\<close>

definition memaccess_measure :: "ucp_worker \<Rightarrow> 64 word \<Rightarrow> nat" where
  "memaccess_measure w tl_bitmap' =
     length (filter (bit tl_bitmap') (ucs_for_each_bit (tl_bitmap (wcontext w))))"

lemma length_filter_le_mono:
  "(\<And>y. y \<in> set xs \<Longrightarrow> P y \<Longrightarrow> Q y) \<Longrightarrow> length (filter P xs) \<le> length (filter Q xs)"
  by (induction xs) auto

lemma length_filter_strict:
  assumes "x \<in> set xs" "\<not> P x" "Q x" "\<And>y. y \<in> set xs \<Longrightarrow> P y \<Longrightarrow> Q y"
  shows "length (filter P xs) < length (filter Q xs)"
  using assms
proof (induction xs)
  case Nil
  then show ?case by simp
next
  case (Cons a xs)
  show ?case
  proof (cases "x = a")
    case True
    have "length (filter P xs) \<le> length (filter Q xs)"
      by (rule length_filter_le_mono) (use Cons.prems in auto)
    then show ?thesis using True Cons.prems by simp
  next
    case False
    then have "length (filter P xs) < length (filter Q xs)"
      using Cons by auto
    then show ?thesis using Cons.prems(4)[of a] by auto
  qed
qed

lemma memaccess_measure_less:
  assumes sel: "ucp_wireup_select_transport K w al c tlb m ld rd = (UCS_OK, info)"
  shows "memaccess_measure w (ucp_wireup_unset_tl_by_md w tlb (rsc_index info))
         < memaccess_measure w tlb"
  unfolding memaccess_measure_def
proof (rule length_filter_strict[where x = "rsc_index info"])
  show "rsc_index info \<in> set (ucs_for_each_bit (tl_bitmap (wcontext w)))"
    using selected_rsc_bits(2)[OF sel] by (simp add: set_ucs_for_each_bit)
  show "\<not> bit (ucp_wireup_unset_tl_by_md w tlb (rsc_index info)) (rsc_index info)"
    using selected_rsc_bits(2)[OF sel] by (simp add: bit_unset_tl_by_md)
  show "bit tlb (rsc_index info)" by (rule selected_rsc_bits(1)[OF sel])
  show "\<And>y. bit (ucp_wireup_unset_tl_by_md w tlb (rsc_index info)) y \<Longrightarrow> bit tlb y"
    by (simp add: bit_unset_tl_by_md)
qed

lemma memaccess_loop_decreases:
  assumes sel: "ucp_wireup_select_transport K (ep s) (address_list s) c tlb m ld rd = (UCS_OK, info)"
    and add: "ucp_wireup_add_lane_desc K s info d u p = Inr s'"
  shows "memaccess_measure (ep s') (ucp_wireup_unset_tl_by_md (ep s) tlb (rsc_index info))
         < memaccess_measure (ep s) tlb"
proof -
  have "ep s' = ep s"
    using add by (rule add_lane_desc_fields)
  then show ?thesis
    using memaccess_measure_less[OF sel] by simp
qed

function memaccess_loop ::
  "ucp_constants \<Rightarrow> ucp_wireup_criteria \<Rightarrow> real \<Rightarrow> 32 word
     \<Rightarrow> ucp_wireup_select_ctx \<times> 64 word \<times> 64 word \<Rightarrow> abort + ucp_wireup_select_ctx" where
  "memaccess_loop K mem_criteria reg_score usg (select_ctx, tl_bitmap', remote_md_map) =
     (if address_count select_ctx > 0
      then (case ucp_wireup_select_transport K (ep select_ctx) (address_list select_ctx)
                   mem_criteria tl_bitmap' remote_md_map (-1) (-1) of
              (status, select_info) \<Rightarrow>
                if status \<noteq> UCS_OK \<or>
                   ucp_wireup_score_cmp K (score select_info) reg_score \<le> 0
                then Inr select_ctx
                else (case ucp_wireup_add_lane_desc K select_ctx select_info
                             (md_index (address_list select_ctx ! addr_index select_info))
                             usg False of
                        Inl a \<Rightarrow> Inl a
                      | Inr select_ctx' \<Rightarrow>
                          memaccess_loop K mem_criteria reg_score usg
                            (select_ctx',
                             ucp_wireup_unset_tl_by_md (ep select_ctx) tl_bitmap'
                               (rsc_index select_info),
                             remote_md_map AND NOT (UCS_BIT
                               (md_index (address_list select_ctx ! addr_index select_info))))))
      else Inr select_ctx)"
  by pat_completeness auto
termination
  apply (relation "measure (\<lambda>(K, c, r, u, s, t, m). memaccess_measure (ep s) t)")
   apply simp
  apply (auto intro!: memaccess_loop_decreases dest: sym)
  done

declare memaccess_loop.simps [simp del]

definition memaccess_out ::
  "ucp_wireup_select_ctx \<Rightarrow> ucs_status \<Rightarrow> abort + ucs_status \<times> ucp_wireup_select_ctx" where
  "memaccess_out select_ctx status =
     (if status \<noteq> UCS_OK \<and> allow_am select_ctx
      then Inr (UCS_OK, select_ctx\<lparr>ep_init_flags :=
                  insert UCP_EP_CREATE_AM_LANE (ep_init_flags select_ctx)\<rparr>)
      else Inr (status, select_ctx))"

definition ucp_wireup_add_memaccess_lanes ::
  "ucp_constants \<Rightarrow> ucp_wireup_select_ctx \<Rightarrow> ucp_wireup_criteria \<Rightarrow> 64 word \<Rightarrow> 32 word
     \<Rightarrow> abort + ucs_status \<times> ucp_wireup_select_ctx" where
  "ucp_wireup_add_memaccess_lanes K select_ctx criteria tl_bitmap' usg =
     (case ucp_wireup_select_transport K (ep select_ctx) (address_list select_ctx)
             (criteria\<lparr>remote_md_flags := insert UCT_MD_FLAG_REG (remote_md_flags criteria)\<rparr>)
             tl_bitmap' (-1) (-1) (-1) of
        (status, select_info) \<Rightarrow>
          if status \<noteq> UCS_OK then memaccess_out select_ctx status
          else let dst_md = md_index (address_list select_ctx ! addr_index select_info);
                   reg_score = score select_info
               in case ucp_wireup_add_lane_desc K select_ctx select_info dst_md usg False of
                    Inl a \<Rightarrow> Inl a
                  | Inr select_ctx1 \<Rightarrow>
                      (case memaccess_loop K
                              (criteria\<lparr>remote_md_flags :=
                                 insert UCT_MD_FLAG_ALLOC (remote_md_flags criteria)\<rparr>)
                              reg_score usg
                              (select_ctx1,
                               ucp_wireup_unset_tl_by_md (ep select_ctx) tl_bitmap'
                                 (rsc_index select_info),
                               (-1) AND NOT (UCS_BIT dst_md)) of
                         Inl a \<Rightarrow> Inl a
                       | Inr select_ctx2 \<Rightarrow> memaccess_out select_ctx2 UCS_OK))"

subsection \<open>Score functions\<close>

definition ucp_wireup_tl_iface_latency ::
  "ucp_context \<Rightarrow> uct_iface_attr \<Rightarrow> ucp_address_iface_attr \<Rightarrow> real" where
  "ucp_wireup_tl_iface_latency ctx ifattr rattr =
     max (if_latency_overhead ifattr) (lat_ovh rattr) +
     if_latency_growth ifattr * real (config_est_num_eps ctx)"

definition ucp_wireup_rma_score_func ::
  "ucp_context \<Rightarrow> uct_md_attr \<Rightarrow> uct_iface_attr \<Rightarrow> ucp_address_iface_attr \<Rightarrow> real" where
  "ucp_wireup_rma_score_func ctx mdattr ifattr rattr =
     (1 / 1000) / (ucp_wireup_tl_iface_latency ctx ifattr rattr + if_overhead ifattr +
                   4096 / min (tl_iface_bandwidth ctx (if_bandwidth ifattr))
                              (tl_iface_bandwidth ctx (bandwidth rattr)))"

definition ucp_wireup_amo_score_func ::
  "ucp_context \<Rightarrow> uct_md_attr \<Rightarrow> uct_iface_attr \<Rightarrow> ucp_address_iface_attr \<Rightarrow> real" where
  "ucp_wireup_amo_score_func ctx mdattr ifattr rattr =
     (1 / 1000) / (ucp_wireup_tl_iface_latency ctx ifattr rattr + if_overhead ifattr)"

definition ucp_wireup_am_score_func ::
  "ucp_context \<Rightarrow> uct_md_attr \<Rightarrow> uct_iface_attr \<Rightarrow> ucp_address_iface_attr \<Rightarrow> real" where
  "ucp_wireup_am_score_func ctx mdattr ifattr rattr =
     (1 / 1000) / (ucp_wireup_tl_iface_latency ctx ifattr rattr + if_overhead ifattr +
                   overhead rattr)"

definition UCP_WIREUP_RMA_BW_TEST_MSG_SIZE :: real where
  "UCP_WIREUP_RMA_BW_TEST_MSG_SIZE = 262144"

definition ucp_wireup_rma_bw_score_func ::
  "ucp_context \<Rightarrow> uct_md_attr \<Rightarrow> uct_iface_attr \<Rightarrow> ucp_address_iface_attr \<Rightarrow> real" where
  "ucp_wireup_rma_bw_score_func ctx mdattr ifattr rattr =
     1 / (UCP_WIREUP_RMA_BW_TEST_MSG_SIZE /
            min (tl_iface_bandwidth ctx (if_bandwidth ifattr))
                (tl_iface_bandwidth ctx (bandwidth rattr)) +
          ucp_wireup_tl_iface_latency ctx ifattr rattr +
          if_overhead ifattr + reg_cost_overhead mdattr +
          UCP_WIREUP_RMA_BW_TEST_MSG_SIZE * reg_cost_growth mdattr)"

definition ucp_wireup_am_bw_score_func ::
  "ucp_context \<Rightarrow> uct_md_attr \<Rightarrow> uct_iface_attr \<Rightarrow> ucp_address_iface_attr \<Rightarrow> real" where
  "ucp_wireup_am_bw_score_func ctx mdattr ifattr rattr =
     (let size = real (if_cap_am_max_bcopy ifattr);
          time = size / min (tl_iface_bandwidth ctx (if_bandwidth ifattr))
                            (tl_iface_bandwidth ctx (bandwidth rattr)) +
                 if_overhead ifattr + overhead rattr +
                 ucp_wireup_tl_iface_latency ctx ifattr rattr
      in size / time * (1 / 100000))"

definition ucp_wireup_aux_score_func ::
  "ucp_context \<Rightarrow> uct_md_attr \<Rightarrow> uct_iface_attr \<Rightarrow> ucp_address_iface_attr \<Rightarrow> real" where
  "ucp_wireup_aux_score_func ctx mdattr ifattr rattr =
     (1 / 1000) / (ucp_wireup_tl_iface_latency ctx ifattr rattr + if_overhead ifattr +
                   overhead rattr)"

subsection \<open>Criteria helpers\<close>

definition atomic_flags_zero :: ucp_tl_iface_atomic_flags where
  "atomic_flags_zero = \<lparr>atomic32_op_flags = 0, atomic32_fop_flags = 0,
                         atomic64_op_flags = 0, atomic64_fop_flags = 0\<rparr>"

definition ucp_wireup_ep_params_is_err_mode_peer :: "ucp_ep_params \<Rightarrow> bool" where
  "ucp_wireup_ep_params_is_err_mode_peer prm \<longleftrightarrow>
     UCP_EP_PARAM_FIELD_ERR_HANDLING_MODE \<in> field_mask prm \<and>
     err_mode prm = UCP_ERR_HANDLING_MODE_PEER"

definition ucp_wireup_fill_ep_params_criteria ::
  "ucp_wireup_criteria \<Rightarrow> ucp_ep_params \<Rightarrow> ucp_wireup_criteria" where
  "ucp_wireup_fill_ep_params_criteria criteria prm =
     (if ucp_wireup_ep_params_is_err_mode_peer prm
      then criteria\<lparr>local_iface_flags :=
             insert UCT_IFACE_FLAG_ERRHANDLE_PEER_FAILURE (local_iface_flags criteria)\<rparr>
      else criteria)"

definition ucp_wireup_fill_aux_criteria :: "ucp_ep_params \<Rightarrow> ucp_wireup_criteria" where
  "ucp_wireup_fill_aux_criteria prm =
     ucp_wireup_fill_ep_params_criteria
       \<lparr>local_md_flags = {}, remote_md_flags = {},
        local_iface_flags = {UCT_IFACE_FLAG_CONNECT_TO_IFACE, UCT_IFACE_FLAG_AM_BCOPY,
                             UCT_IFACE_FLAG_PENDING},
        remote_iface_flags = {UCT_IFACE_FLAG_CONNECT_TO_IFACE, UCT_IFACE_FLAG_AM_BCOPY,
                              UCT_IFACE_FLAG_CB_ASYNC},
        local_atomic_flags = atomic_flags_zero, remote_atomic_flags = atomic_flags_zero,
        calc_score = ucp_wireup_aux_score_func,
        tl_rsc_flags = {UCP_TL_RSC_FLAG_AUX}\<rparr> prm"

definition ucp_wireup_allow_am_emulation_layer ::
  "ucp_ep_params \<Rightarrow> ucp_ep_init_flag set \<Rightarrow> bool" where
  "ucp_wireup_allow_am_emulation_layer prm init_flags \<longleftrightarrow>
     UCP_EP_INIT_FLAG_MEM_TYPE \<notin> init_flags \<and> \<not> ucp_wireup_ep_params_is_err_mode_peer prm"

definition ucp_ep_get_context_features :: "ucp_worker \<Rightarrow> ucp_feature set" where
  "ucp_ep_get_context_features worker = config_features (wcontext worker)"

subsection \<open>The RMA and AMO passes\<close>

definition rma_criteria :: "ucp_wireup_select_ctx \<Rightarrow> ucp_wireup_criteria" where
  "rma_criteria select_ctx =
     ucp_wireup_fill_ep_params_criteria
       (if UCP_EP_INIT_FLAG_MEM_TYPE \<in> ep_init_flags select_ctx
        then \<lparr>local_md_flags = {}, remote_md_flags = {},
              local_iface_flags = {UCT_IFACE_FLAG_PUT_SHORT},
              remote_iface_flags = {UCT_IFACE_FLAG_PUT_SHORT},
              local_atomic_flags = atomic_flags_zero, remote_atomic_flags = atomic_flags_zero,
              calc_score = ucp_wireup_rma_score_func, tl_rsc_flags = {}\<rparr>
        else \<lparr>local_md_flags = {}, remote_md_flags = {},
              local_iface_flags = {UCT_IFACE_FLAG_PUT_SHORT, UCT_IFACE_FLAG_PUT_BCOPY,
                                   UCT_IFACE_FLAG_GET_BCOPY, UCT_IFACE_FLAG_PENDING},
              remote_iface_flags = {UCT_IFACE_FLAG_PUT_SHORT, UCT_IFACE_FLAG_PUT_BCOPY,
                                    UCT_IFACE_FLAG_GET_BCOPY},
              local_atomic_flags = atomic_flags_zero, remote_atomic_flags = atomic_flags_zero,
              calc_score = ucp_wireup_rma_score_func, tl_rsc_flags = {}\<rparr>)
       (params select_ctx)"

definition ucp_wireup_add_rma_lanes ::
  "ucp_constants \<Rightarrow> ucp_wireup_select_ctx \<Rightarrow> abort + ucs_status \<times> ucp_wireup_select_ctx" where
  "ucp_wireup_add_rma_lanes K select_ctx =
     (if UCP_FEATURE_RMA \<notin> ucp_ep_get_context_features (ep select_ctx) \<and>
         UCP_EP_INIT_FLAG_MEM_TYPE \<notin> ep_init_flags select_ctx
      then Inr (UCS_OK, select_ctx)
      else ucp_wireup_add_memaccess_lanes K select_ctx (rma_criteria select_ctx) (-1)
             UCP_WIREUP_LANE_USAGE_RMA)"

definition amo_criteria :: "ucp_wireup_select_ctx \<Rightarrow> ucp_wireup_criteria" where
  "amo_criteria select_ctx =
     ucp_wireup_fill_ep_params_criteria
       \<lparr>local_md_flags = {}, remote_md_flags = {},
        local_iface_flags = {UCT_IFACE_FLAG_PENDING},
        remote_iface_flags = {},
        local_atomic_flags = atomic_iface_flags (wcontext (ep select_ctx)),
        remote_atomic_flags = atomic_iface_flags (wcontext (ep select_ctx)),
        calc_score = ucp_wireup_amo_score_func, tl_rsc_flags = {}\<rparr>
       (params select_ctx)"

definition amo_tl_bitmap :: "ucp_worker \<Rightarrow> 64 word" where
  "amo_tl_bitmap worker =
     fold (\<lambda>rsc_idx bm. if \<not> is_tl_p2p worker rsc_idx then bm OR UCS_BIT rsc_idx else bm)
       [0..<num_tls (wcontext worker)] (atomic_tls worker)"

text \<open>
  Modelled from the spec: the macro \<open>ucs_test_flags\<close> is declared outside select.c; the
  spec says the AMO pass is gated on feature AMO32 or AMO64.
\<close>

definition ucp_wireup_add_amo_lanes ::
  "ucp_constants \<Rightarrow> ucp_wireup_select_ctx \<Rightarrow> abort + ucs_status \<times> ucp_wireup_select_ctx" where
  "ucp_wireup_add_amo_lanes K select_ctx =
     (if (UCP_FEATURE_AMO32 \<notin> config_features (wcontext (ep select_ctx)) \<and>
          UCP_FEATURE_AMO64 \<notin> config_features (wcontext (ep select_ctx))) \<or>
         UCP_EP_INIT_FLAG_MEM_TYPE \<in> ep_init_flags select_ctx
      then Inr (UCS_OK, select_ctx)
      else ucp_wireup_add_memaccess_lanes K select_ctx (amo_criteria select_ctx)
             (amo_tl_bitmap (ep select_ctx)) UCP_WIREUP_LANE_USAGE_AMO)"

subsection \<open>The AM pass\<close>

definition ucp_wireup_is_lane_proxy :: "ucp_worker \<Rightarrow> nat \<Rightarrow> uct_iface_flag set \<Rightarrow> bool" where
  "ucp_wireup_is_lane_proxy worker rsc_idx remote_cap_flags \<longleftrightarrow>
     \<not> is_tl_p2p worker rsc_idx \<and>
     remote_cap_flags \<inter> UCP_WORKER_UCT_RECV_EVENT_CAP_FLAGS = {UCT_IFACE_FLAG_EVENT_RECV_SIG}"

definition ucp_wireup_is_am_required :: "ucp_wireup_select_ctx \<Rightarrow> bool" where
  "ucp_wireup_is_am_required select_ctx \<longleftrightarrow>
     (if UCP_EP_CREATE_AM_LANE \<in> ep_init_flags select_ctx \<or>
         UCP_EP_PARAM_FIELD_SOCK_ADDR \<in> field_mask (params select_ctx) then True
      else if UCP_EP_INIT_FLAG_MEM_TYPE \<notin> ep_init_flags select_ctx \<and>
              ucp_ep_get_context_features (ep select_ctx) \<inter>
                {UCP_FEATURE_TAG, UCP_FEATURE_STREAM, UCP_FEATURE_AM} \<noteq> {} then True
      else list_ex (\<lambda>d. is_tl_p2p (ep select_ctx) (ld_rsc_index d)) (lane_descs select_ctx))"

definition am_criteria :: "ucp_wireup_select_ctx \<Rightarrow> ucp_wireup_criteria" where
  "am_criteria select_ctx =
     (let criteria = ucp_wireup_fill_ep_params_criteria
            \<lparr>local_md_flags = {}, remote_md_flags = {},
             local_iface_flags = {UCT_IFACE_FLAG_AM_BCOPY},
             remote_iface_flags = {UCT_IFACE_FLAG_AM_BCOPY, UCT_IFACE_FLAG_CB_SYNC},
             local_atomic_flags = atomic_flags_zero, remote_atomic_flags = atomic_flags_zero,
             calc_score = ucp_wireup_am_score_func, tl_rsc_flags = {}\<rparr>
            (params select_ctx)
      in if {UCP_FEATURE_TAG, UCP_FEATURE_WAKEUP} \<subseteq> ucp_ep_get_context_features (ep select_ctx)
         then criteria\<lparr>local_iface_flags :=
                local_iface_flags criteria \<union> UCP_WORKER_UCT_UNSIG_EVENT_CAP_FLAGS\<rparr>
         else criteria)"

definition ucp_wireup_add_am_lane ::
  "ucp_constants \<Rightarrow> ucp_wireup_select_ctx \<Rightarrow> abort + ucs_status \<times> ucp_wireup_select_ctx" where
  "ucp_wireup_add_am_lane K select_ctx =
     (if \<not> ucp_wireup_is_am_required select_ctx then Inr (UCS_OK, select_ctx)
      else case ucp_wireup_select_transport K (ep select_ctx) (address_list select_ctx)
                  (am_criteria select_ctx) (-1) (-1) (-1) (-1) of
             (status, info) \<Rightarrow>
               let select_ctx1 = select_ctx\<lparr>am_info := info\<rparr>
               in if status \<noteq> UCS_OK then Inr (status, select_ctx1)
                  else let ae = address_list select_ctx ! addr_index info;
                           is_proxy = ucp_wireup_is_lane_proxy (ep select_ctx) (rsc_index info)
                                        (cap_flags (iface_attr ae))
                       in case ucp_wireup_add_lane_desc K select_ctx1 info (md_index ae)
                                 UCP_WIREUP_LANE_USAGE_AM is_proxy of
                            Inl a \<Rightarrow> Inl a
                          | Inr select_ctx2 \<Rightarrow> Inr (UCS_OK, select_ctx2))"

subsection \<open>Bandwidth lanes (RMA-BW and AM-BW)\<close>

definition ucp_wireup_is_rsc_self_or_shm :: "ucp_worker \<Rightarrow> nat \<Rightarrow> bool" where
  "ucp_wireup_is_rsc_self_or_shm worker rsc_idx \<longleftrightarrow>
     dev_type (tl_rscs (wcontext worker) ! rsc_idx) = UCT_DEVICE_TYPE_SHM \<or>
     dev_type (tl_rscs (wcontext worker) ! rsc_idx) = UCT_DEVICE_TYPE_SELF"

function bw_lanes_loop ::
  "ucp_constants \<Rightarrow> ucp_wireup_select_bw_info \<Rightarrow> bool \<Rightarrow> 64 word
     \<Rightarrow> ucp_wireup_select_ctx \<times> nat \<times> 64 word \<times> 64 word \<times> 64 word
     \<Rightarrow> abort + ucp_wireup_select_ctx" where
  "bw_lanes_loop K bw_info allow_proxy tl_bitmap'
       (select_ctx, n, md_map, local_dev_bitmap, remote_dev_bitmap) =
     (if n < bw_max_lanes bw_info \<and> ucs_popcount md_map < UCP_MAX_OP_MDS K
      then (case ucp_wireup_select_transport K (ep select_ctx) (address_list select_ctx)
                   (bw_criteria bw_info) tl_bitmap' (-1) local_dev_bitmap remote_dev_bitmap of
              (status, select_info) \<Rightarrow>
                if status \<noteq> UCS_OK then Inr select_ctx
                else let ae = address_list select_ctx ! addr_index select_info;
                         rsc = tl_rscs (wcontext (ep select_ctx)) ! rsc_index select_info;
                         is_proxy = (allow_proxy \<and>
                                     ucp_wireup_is_lane_proxy (ep select_ctx)
                                       (rsc_index select_info) (cap_flags (iface_attr ae)))
                     in case ucp_wireup_add_lane_desc K select_ctx select_info (md_index ae)
                               (bw_usage bw_info) is_proxy of
                          Inl a \<Rightarrow> Inl a
                        | Inr select_ctx' \<Rightarrow>
                            if ucp_wireup_is_rsc_self_or_shm (ep select_ctx)
                                 (rsc_index select_info)
                            then Inr select_ctx'
                            else bw_lanes_loop K bw_info allow_proxy tl_bitmap'
                                   (select_ctx', n + 1,
                                    md_map OR UCS_BIT (rsc_md_index rsc),
                                    local_dev_bitmap AND NOT (UCS_BIT (rsc_dev_index rsc)),
                                    remote_dev_bitmap AND NOT (UCS_BIT (dev_index ae))))
      else Inr select_ctx)"
  by pat_completeness auto
termination
  by (relation "measure (\<lambda>(K, bw_info, p, t, s, n, m). bw_max_lanes bw_info - n)") auto

declare bw_lanes_loop.simps [simp del]

definition ucp_wireup_add_bw_lanes ::
  "ucp_constants \<Rightarrow> ucp_wireup_select_ctx \<Rightarrow> ucp_wireup_select_bw_info \<Rightarrow> bool \<Rightarrow> 64 word
     \<Rightarrow> abort + ucs_status \<times> ucp_wireup_select_ctx" where
  "ucp_wireup_add_bw_lanes K select_ctx bw_info allow_proxy tl_bitmap' =
     (case bw_lanes_loop K bw_info allow_proxy tl_bitmap'
             (select_ctx, 0, bw_md_map bw_info, bw_local_dev_bitmap bw_info,
              bw_remote_dev_bitmap bw_info) of
        Inl a \<Rightarrow> Inl a
      | Inr select_ctx' \<Rightarrow> Inr (UCS_OK, select_ctx'))"

definition am_bw_criteria :: "ucp_wireup_select_ctx \<Rightarrow> ucp_wireup_criteria" where
  "am_bw_criteria select_ctx =
     (let criteria = ucp_wireup_fill_ep_params_criteria
            \<lparr>local_md_flags = {}, remote_md_flags = {},
             local_iface_flags = {UCT_IFACE_FLAG_AM_BCOPY},
             remote_iface_flags = {UCT_IFACE_FLAG_AM_BCOPY, UCT_IFACE_FLAG_CB_SYNC},
             local_atomic_flags = atomic_flags_zero, remote_atomic_flags = atomic_flags_zero,
             calc_score = ucp_wireup_am_bw_score_func, tl_rsc_flags = {}\<rparr>
            (params select_ctx)
      in if {UCP_FEATURE_TAG, UCP_FEATURE_WAKEUP} \<subseteq> ucp_ep_get_context_features (ep select_ctx)
         then criteria\<lparr>local_iface_flags :=
                local_iface_flags criteria \<union> UCP_WORKER_UCT_UNSIG_EVENT_CAP_FLAGS\<rparr>
         else criteria)"

definition ucp_wireup_add_am_bw_lanes ::
  "ucp_constants \<Rightarrow> ucp_wireup_select_ctx \<Rightarrow> abort + ucs_status \<times> ucp_wireup_select_ctx" where
  "ucp_wireup_add_am_bw_lanes K select_ctx =
     (let ctx = wcontext (ep select_ctx)
      in if UCP_FEATURE_TAG \<notin> ucp_ep_get_context_features (ep select_ctx) \<or>
            UCP_EP_INIT_FLAG_MEM_TYPE \<in> ep_init_flags select_ctx \<or>
            config_max_eager_lanes ctx < 2
         then Inr (UCS_OK, select_ctx)
         else let bw_info = \<lparr>bw_criteria = am_bw_criteria select_ctx,
                              bw_local_dev_bitmap = -1, bw_remote_dev_bitmap = -1,
                              bw_md_map = 0, bw_usage = UCP_WIREUP_LANE_USAGE_AM_BW,
                              bw_max_lanes = config_max_eager_lanes ctx - 1\<rparr>
              in case find (\<lambda>d. usage d AND UCP_WIREUP_LANE_USAGE_AM \<noteq> 0)
                        (lane_descs select_ctx) of
                   None \<Rightarrow> ucp_wireup_add_bw_lanes K select_ctx bw_info True (-1)
                 | Some d \<Rightarrow>
                     let rsc = tl_rscs ctx ! ld_rsc_index d;
                         bw_info' = bw_info
                           \<lparr>bw_md_map := bw_md_map bw_info OR UCS_BIT (rsc_md_index rsc),
                            bw_local_dev_bitmap := bw_local_dev_bitmap bw_info AND
                               NOT (UCS_BIT (rsc_dev_index rsc)),
                            bw_remote_dev_bitmap := bw_remote_dev_bitmap bw_info AND
                               NOT (UCS_BIT (dev_index (address_list select_ctx !
                                                        ld_addr_index d)))\<rparr>
                     in if ucp_wireup_is_rsc_self_or_shm (ep select_ctx) (ld_rsc_index d)
                        then Inr (UCS_OK, select_ctx)
                        else ucp_wireup_add_bw_lanes K select_ctx bw_info' True (-1))"

definition rma_bw_criteria ::
  "ucp_wireup_select_ctx \<Rightarrow> uct_md_flag set \<Rightarrow> ucp_wireup_criteria" where
  "rma_bw_criteria select_ctx mdflags =
     (let criteria = ucp_wireup_fill_ep_params_criteria
            \<lparr>local_md_flags = mdflags, remote_md_flags = mdflags,
             local_iface_flags = {UCT_IFACE_FLAG_GET_ZCOPY, UCT_IFACE_FLAG_PUT_ZCOPY,
                                  UCT_IFACE_FLAG_PENDING},
             remote_iface_flags = {UCT_IFACE_FLAG_GET_ZCOPY, UCT_IFACE_FLAG_PUT_ZCOPY},
             local_atomic_flags = atomic_flags_zero, remote_atomic_flags = atomic_flags_zero,
             calc_score = ucp_wireup_rma_bw_score_func, tl_rsc_flags = {}\<rparr>
            (params select_ctx)
      in if {UCP_FEATURE_TAG, UCP_FEATURE_WAKEUP} \<subseteq> ucp_ep_get_context_features (ep select_ctx)
         then criteria\<lparr>local_iface_flags :=
                local_iface_flags criteria \<union> UCP_WORKER_UCT_UNSIG_EVENT_CAP_FLAGS\<rparr>
         else criteria)"

fun rma_bw_mem_type_loop ::
  "ucp_constants \<Rightarrow> ucp_wireup_select_bw_info \<Rightarrow> 64 word list \<Rightarrow> ucp_wireup_select_ctx
     \<Rightarrow> abort + ucp_wireup_select_ctx" where
  "rma_bw_mem_type_loop K bw_info [] select_ctx = Inr select_ctx"
| "rma_bw_mem_type_loop K bw_info (tls # rest) select_ctx =
     (if tls = 0 then rma_bw_mem_type_loop K bw_info rest select_ctx
      else case ucp_wireup_add_bw_lanes K select_ctx bw_info False tls of
             Inl a \<Rightarrow> Inl a
           | Inr (status, select_ctx') \<Rightarrow> rma_bw_mem_type_loop K bw_info rest select_ctx')"

definition rma_bw_info ::
  "ucp_wireup_select_ctx \<Rightarrow> uct_md_flag set \<Rightarrow> ucp_wireup_select_bw_info" where
  "rma_bw_info select_ctx mdflags =
     \<lparr>bw_criteria = rma_bw_criteria select_ctx mdflags,
      bw_local_dev_bitmap = -1, bw_remote_dev_bitmap = -1, bw_md_map = 0,
      bw_usage = UCP_WIREUP_LANE_USAGE_RMA_BW,
      bw_max_lanes = config_max_rndv_lanes (wcontext (ep select_ctx))\<rparr>"

definition ucp_wireup_add_rma_bw_lanes ::
  "ucp_constants \<Rightarrow> ucp_wireup_select_ctx \<Rightarrow> abort + ucs_status \<times> ucp_wireup_select_ctx" where
  "ucp_wireup_add_rma_bw_lanes K select_ctx =
     (if UCP_EP_INIT_FLAG_MEM_TYPE \<in> ep_init_flags select_ctx
      then (case rma_bw_mem_type_loop K (rma_bw_info select_ctx {})
                   (mem_type_access_tls (wcontext (ep select_ctx))) select_ctx of
              Inl a \<Rightarrow> Inl a
            | Inr select_ctx' \<Rightarrow> Inr (UCS_OK, select_ctx'))
      else if UCP_FEATURE_TAG \<in> ucp_ep_get_context_features (ep select_ctx)
      then (case rma_bw_mem_type_loop K (rma_bw_info select_ctx {UCT_MD_FLAG_REG})
                   (mem_type_access_tls (wcontext (ep select_ctx))) select_ctx of
              Inl a \<Rightarrow> Inl a
            | Inr select_ctx' \<Rightarrow> Inr (UCS_OK, select_ctx'))
      else Inr (UCS_OK, select_ctx))"

subsection \<open>The TAG pass\<close>

definition tag_criteria :: "ucp_wireup_select_ctx \<Rightarrow> ucp_wireup_criteria" where
  "tag_criteria select_ctx =
     (let criteria =
            \<lparr>local_md_flags = {UCT_MD_FLAG_REG}, remote_md_flags = {UCT_MD_FLAG_REG},
             local_iface_flags = {UCT_IFACE_FLAG_TAG_EAGER_BCOPY, UCT_IFACE_FLAG_TAG_RNDV_ZCOPY,
                                  UCT_IFACE_FLAG_GET_ZCOPY, UCT_IFACE_FLAG_PENDING},
             remote_iface_flags = {UCT_IFACE_FLAG_TAG_EAGER_BCOPY, UCT_IFACE_FLAG_TAG_RNDV_ZCOPY,
                                   UCT_IFACE_FLAG_GET_ZCOPY, UCT_IFACE_FLAG_PENDING},
             local_atomic_flags = atomic_flags_zero, remote_atomic_flags = atomic_flags_zero,
             calc_score = ucp_wireup_am_score_func, tl_rsc_flags = {}\<rparr>
      in if UCP_FEATURE_WAKEUP \<in> ucp_ep_get_context_features (ep select_ctx)
         then criteria\<lparr>local_iface_flags :=
                local_iface_flags criteria \<union> UCP_WORKER_UCT_UNSIG_EVENT_CAP_FLAGS\<rparr>
         else criteria)"

definition ucp_wireup_add_tag_lane ::
  "ucp_constants \<Rightarrow> ucp_wireup_select_ctx \<Rightarrow> ucp_err_handling_mode
     \<Rightarrow> abort + ucs_status \<times> ucp_wireup_select_ctx" where
  "ucp_wireup_add_tag_lane K select_ctx em =
     (if UCP_FEATURE_TAG \<notin> ucp_ep_get_context_features (ep select_ctx) \<or>
         em \<noteq> UCP_ERR_HANDLING_MODE_NONE
      then Inr (UCS_OK, select_ctx)
      else case ucp_wireup_select_transport K (ep select_ctx) (address_list select_ctx)
                  (tag_criteria select_ctx) (-1) (-1) (-1) (-1) of
             (status, select_info) \<Rightarrow>
               if status \<noteq> UCS_OK \<or>
                  ucp_wireup_score_cmp K (score select_info) (score (am_info select_ctx)) < 0
               then Inr (UCS_OK, select_ctx)
               else let ae = address_list select_ctx ! addr_index select_info;
                        is_proxy = ucp_wireup_is_lane_proxy (ep select_ctx)
                                     (rsc_index select_info) (cap_flags (iface_attr ae))
                    in case ucp_wireup_add_lane_desc K select_ctx select_info (md_index ae)
                              UCP_WIREUP_LANE_USAGE_TAG is_proxy of
                         Inl a \<Rightarrow> Inl a
                       | Inr select_ctx' \<Rightarrow> Inr (UCS_OK, select_ctx'))"

subsection \<open>Search and finalisation\<close>

record ucp_ep_config_key_lane =
  kl_rsc_index :: nat
  kl_proxy_lane :: nat
  kl_dst_md_index :: nat

text \<open>
  The configuration key. Its arrays are lists; in C each has \<open>UCP_MAX_LANES\<close> slots.
  The key is an in-out parameter: the caller fills it before the call (\<open>key_err_mode\<close>
  is read by the TAG pass) and the finaliser overwrites only some of its slots.
\<close>

record ucp_ep_config_key =
  key_num_lanes :: nat
  lanes :: "ucp_ep_config_key_lane list"
  am_lane :: nat
  tag_lane :: nat
  wireup_lane :: nat
  am_bw_lanes :: "nat list"
  rma_lanes :: "nat list"
  rma_bw_lanes :: "nat list"
  amo_lanes :: "nat list"
  rma_bw_md_map :: "64 word"
  key_err_mode :: ucp_err_handling_mode

text \<open>
  \<open>ucp_wireup_select_ctx_init\<close> writes every field of the context except \<open>am_info\<close>;
  the context is a local variable of \<open>ucp_wireup_select_lanes\<close>, so that field starts
  with whatever the stack held. The model takes that value as the argument \<open>stack_am_info\<close>.
\<close>

definition ucp_wireup_select_ctx_init ::
  "ucp_wireup_select_info \<Rightarrow> ucp_worker \<Rightarrow> ucp_ep_params \<Rightarrow> ucp_ep_init_flag set
     \<Rightarrow> ucp_address_entry list \<Rightarrow> ucp_wireup_select_ctx" where
  "ucp_wireup_select_ctx_init stack_am_info worker prm init_flags al =
     \<lparr>ep = worker, params = prm, ep_init_flags = init_flags, address_list = al,
      lane_descs = [], allow_am = ucp_wireup_allow_am_emulation_layer prm init_flags,
      am_info = stack_am_info\<rparr>"

definition ucp_wireup_search_lanes ::
  "ucp_constants \<Rightarrow> ucp_wireup_select_ctx \<Rightarrow> ucp_ep_config_key
     \<Rightarrow> abort + ucs_status \<times> ucp_wireup_select_ctx" where
  "ucp_wireup_search_lanes K select_ctx key =
     (case ucp_wireup_add_rma_lanes K select_ctx of
        Inl a \<Rightarrow> Inl a
      | Inr (status1, s1) \<Rightarrow>
     if status1 \<noteq> UCS_OK then Inr (status1, s1) else
     (case ucp_wireup_add_amo_lanes K s1 of
        Inl a \<Rightarrow> Inl a
      | Inr (status2, s2) \<Rightarrow>
     if status2 \<noteq> UCS_OK then Inr (status2, s2) else
     (case ucp_wireup_add_am_lane K s2 of
        Inl a \<Rightarrow> Inl a
      | Inr (status3, s3) \<Rightarrow>
     if status3 \<noteq> UCS_OK then Inr (status3, s3) else
     (case ucp_wireup_add_rma_bw_lanes K s3 of
        Inl a \<Rightarrow> Inl a
      | Inr (status4, s4) \<Rightarrow>
     if status4 \<noteq> UCS_OK then Inr (status4, s4) else
     (case ucp_wireup_add_tag_lane K s4 (key_err_mode key) of
        Inl a \<Rightarrow> Inl a
      | Inr (status5, s5) \<Rightarrow>
     if status5 \<noteq> UCS_OK then Inr (status5, s5) else
     (case ucp_wireup_add_am_bw_lanes K s5 of
        Inl a \<Rightarrow> Inl a
      | Inr (status6, s6) \<Rightarrow>
     if status6 \<noteq> UCS_OK then Inr (status6, s6)
     else if num_lanes s6 = 0 then Inr (UCS_ERR_UNREACHABLE, s6)
     else Inr (UCS_OK, s6)))))))"

fun wireup_msg_lane_loop ::
  "ucp_worker \<Rightarrow> ucp_wireup_criteria \<Rightarrow> ucp_address_entry list \<Rightarrow> ucp_wireup_lane_desc list
     \<Rightarrow> nat list \<Rightarrow> nat \<Rightarrow> nat" where
  "wireup_msg_lane_loop worker criteria al descs [] p2p_lane = p2p_lane"
| "wireup_msg_lane_loop worker criteria al descs (lane # rest) p2p_lane =
     (let rsc_idx = ld_rsc_index (descs ! lane);
          addr_idx = ld_addr_index (descs ! lane);
          attrs = ucp_worker_iface_get_attr worker rsc_idx
      in if local_iface_flags criteria \<subseteq> if_cap_flags attrs \<and>
            remote_iface_flags criteria \<subseteq> cap_flags (iface_attr (al ! addr_idx))
         then lane
         else if is_tl_p2p worker rsc_idx
         then wireup_msg_lane_loop worker criteria al descs rest lane
         else wireup_msg_lane_loop worker criteria al descs rest p2p_lane)"

definition ucp_wireup_select_wireup_msg_lane ::
  "ucp_constants \<Rightarrow> ucp_worker \<Rightarrow> ucp_ep_params \<Rightarrow> ucp_address_entry list
     \<Rightarrow> ucp_wireup_lane_desc list \<Rightarrow> nat \<Rightarrow> nat" where
  "ucp_wireup_select_wireup_msg_lane K worker prm al descs n =
     wireup_msg_lane_loop worker (ucp_wireup_fill_aux_criteria prm) al descs [0..<n]
       (UCP_NULL_LANE K)"

text \<open>
  Modelled from the spec: \<open>ucs_qsort_r\<close> is declared outside select.c. The spec asks
  for a sort in decreasing score order with a stable tie-break; the model is the stable
  insertion sort under the comparison callback.
\<close>

fun insort_cmp :: "('a \<Rightarrow> 'a \<Rightarrow> int) \<Rightarrow> 'a \<Rightarrow> 'a list \<Rightarrow> 'a list" where
  "insort_cmp cmp x [] = [x]"
| "insort_cmp cmp x (y # ys) =
     (if cmp x y \<le> 0 then x # y # ys else y # insort_cmp cmp x ys)"

definition ucs_qsort_r :: "('a \<Rightarrow> 'a \<Rightarrow> int) \<Rightarrow> 'a list \<Rightarrow> 'a list" where
  "ucs_qsort_r cmp xs = foldr (insort_cmp cmp) xs []"

text \<open>Sorting \<open>count\<close> elements of an array from position \<open>start\<close> on.\<close>

definition qsort_range :: "('a \<Rightarrow> 'a \<Rightarrow> int) \<Rightarrow> nat \<Rightarrow> nat \<Rightarrow> 'a list \<Rightarrow> 'a list" where
  "qsort_range cmp start count xs =
     take start xs @ ucs_qsort_r cmp (take count (drop start xs)) @ drop (start + count) xs"

text \<open>\<open>strstr haystack needle \<noteq> NULL\<close>.\<close>

fun strstr :: "string \<Rightarrow> string \<Rightarrow> bool" where
  "strstr [] needle = (needle = [])"
| "strstr (c # cs) needle = (take (length needle) (c # cs) = needle \<or> strstr cs needle)"

text \<open>
  The loop that fills \<open>rma_bw_md_map\<close> tests \<open>rma_bw_lanes[i]\<close> before anything else
  and has no bound on \<open>i\<close>: when every slot holds a lane it reads one past the array.
\<close>

fun rma_bw_md_map_loop ::
  "ucp_constants \<Rightarrow> ucp_context \<Rightarrow> ucp_wireup_lane_desc list \<Rightarrow> nat list \<Rightarrow> 64 word
     \<Rightarrow> abort + 64 word" where
  "rma_bw_md_map_loop K ctx descs [] m = Inl Rma_bw_lanes_out_of_bounds"
| "rma_bw_md_map_loop K ctx descs (lane # rest) m =
     (if lane \<noteq> UCP_NULL_LANE K \<and> ucs_popcount m < UCP_MAX_OP_MDS K
      then let rsc_idx = ld_rsc_index (descs ! lane);
               md = rsc_md_index (tl_rscs ctx ! rsc_idx)
           in rma_bw_md_map_loop K ctx descs rest
                (if UCT_MD_FLAG_NEED_RKEY \<in> md_cap_flags (tl_mds ctx ! md) \<and>
                    \<not> strstr (tl_name (tl_rscs ctx ! rsc_idx)) ''ugni''
                 then m OR UCS_BIT md else m)
      else Inr m)"

text \<open>One iteration of the per-lane loop of \<open>ucp_wireup_construct_lanes\<close>.\<close>

definition construct_lane_step ::
  "ucp_constants \<Rightarrow> ucp_wireup_lane_desc list \<Rightarrow> nat \<Rightarrow> nat list \<times> ucp_ep_config_key
     \<Rightarrow> nat list \<times> ucp_ep_config_key" where
  "construct_lane_step K descs lane st =
     (let d = descs ! lane;
          addr_indices = (fst st)[lane := ld_addr_index d mod 256];
          key0 = (snd st)\<lparr>lanes := (lanes (snd st))[lane :=
                    \<lparr>kl_rsc_index = ld_rsc_index d, kl_proxy_lane = proxy_lane d,
                     kl_dst_md_index = dst_md_index d\<rparr>]\<rparr>;
          key1 = (if usage d AND UCP_WIREUP_LANE_USAGE_AM \<noteq> 0
                  then key0\<lparr>am_lane := lane\<rparr> else key0);
          key2 = (if usage d AND UCP_WIREUP_LANE_USAGE_AM_BW \<noteq> 0 \<and>
                     lane < UCP_MAX_LANES K - 1
                  then key1\<lparr>am_bw_lanes := (am_bw_lanes key1)[lane + 1 := lane]\<rparr> else key1);
          key3 = (if usage d AND UCP_WIREUP_LANE_USAGE_RMA \<noteq> 0
                  then key2\<lparr>rma_lanes := (rma_lanes key2)[lane := lane]\<rparr> else key2);
          key4 = (if usage d AND UCP_WIREUP_LANE_USAGE_RMA_BW \<noteq> 0
                  then key3\<lparr>rma_bw_lanes := (rma_bw_lanes key3)[lane := lane]\<rparr> else key3);
          key5 = (if usage d AND UCP_WIREUP_LANE_USAGE_AMO \<noteq> 0
                  then key4\<lparr>amo_lanes := (amo_lanes key4)[lane := lane]\<rparr> else key4);
          key6 = (if usage d AND UCP_WIREUP_LANE_USAGE_TAG \<noteq> 0
                  then key5\<lparr>tag_lane := lane\<rparr> else key5)
      in (addr_indices, key6))"

definition ucp_wireup_construct_lanes ::
  "ucp_constants \<Rightarrow> ucp_wireup_select_ctx \<Rightarrow> nat list \<Rightarrow> ucp_ep_config_key
     \<Rightarrow> abort + nat list \<times> ucp_ep_config_key" where
  "ucp_wireup_construct_lanes K select_ctx addr_indices key =
     (let descs = lane_descs select_ctx;
          n = num_lanes select_ctx;
          st = fold (construct_lane_step K descs) [0..<n]
                 (addr_indices, key\<lparr>key_num_lanes := n\<rparr>);
          key1 = snd st;
          key2 = key1\<lparr>am_bw_lanes := qsort_range (UCP_WIREUP_COMPARE_SCORE K am_bw_score descs)
                                         1 (UCP_MAX_LANES K - 1) (am_bw_lanes key1),
                      rma_lanes := qsort_range (UCP_WIREUP_COMPARE_SCORE K rma_score descs)
                                         0 (UCP_MAX_LANES K) (rma_lanes key1),
                      rma_bw_lanes := qsort_range (UCP_WIREUP_COMPARE_SCORE K rma_bw_score descs)
                                         0 (UCP_MAX_LANES K) (rma_bw_lanes key1),
                      amo_lanes := qsort_range (UCP_WIREUP_COMPARE_SCORE K amo_score descs)
                                         0 (UCP_MAX_LANES K) (amo_lanes key1)\<rparr>;
          key3 = key2\<lparr>wireup_lane := ucp_wireup_select_wireup_msg_lane K (ep select_ctx)
                                          (params select_ctx) (address_list select_ctx) descs n\<rparr>
      in case rma_bw_md_map_loop K (wcontext (ep select_ctx)) descs (rma_bw_lanes key3)
                (rma_bw_md_map key3) of
           Inl a \<Rightarrow> Inl a
         | Inr m \<Rightarrow> Inr (fst st, key3\<lparr>rma_bw_md_map := m,
                                      am_bw_lanes := (am_bw_lanes key3)[0 := am_lane key3]\<rparr>))"

text \<open>
  The entry point. On a status other than \<open>UCS_OK\<close> the outputs are left as they were.
\<close>

definition ucp_wireup_select_lanes ::
  "ucp_constants \<Rightarrow> ucp_wireup_select_info \<Rightarrow> ucp_worker \<Rightarrow> ucp_ep_params
     \<Rightarrow> ucp_ep_init_flag set \<Rightarrow> ucp_address_entry list \<Rightarrow> nat list \<Rightarrow> ucp_ep_config_key
     \<Rightarrow> abort + ucs_status \<times> nat list \<times> ucp_ep_config_key" where
  "ucp_wireup_select_lanes K stack_am_info worker prm init_flags al addr_indices key =
     (case ucp_wireup_search_lanes K
             (ucp_wireup_select_ctx_init stack_am_info worker prm init_flags al) key of
        Inl a \<Rightarrow> Inl a
      | Inr (status, select_ctx) \<Rightarrow>
          if status \<noteq> UCS_OK then Inr (status, addr_indices, key)
          else (case ucp_wireup_construct_lanes K select_ctx addr_indices key of
                  Inl a \<Rightarrow> Inl a
                | Inr (addr_indices', key') \<Rightarrow> Inr (UCS_OK, addr_indices', key')))"

definition ucp_wireup_select_aux_transport ::
  "ucp_constants \<Rightarrow> ucp_worker \<Rightarrow> ucp_ep_params \<Rightarrow> ucp_address_entry list
     \<Rightarrow> ucs_status \<times> ucp_wireup_select_info" where
  "ucp_wireup_select_aux_transport K worker prm al =
     ucp_wireup_select_transport K worker al (ucp_wireup_fill_aux_criteria prm)
       (-1) (-1) (-1) (-1)"

subsection \<open>Invariants of the lane table across the passes\<close>

text \<open>
  A property \<open>P\<close> of the selection context is a lane invariant, with permitted aborts
  \<open>A\<close>, when every call of \<open>ucp_wireup_add_lane_desc\<close> of the shape the passes make
  (a non-empty usage, an address index inside the address list, and the remote MD index
  read from that address entry) either aborts within \<open>A\<close> or re-establishes \<open>P\<close>, and
  \<open>P\<close> does not depend on the init flags or on the recorded AM selection.
\<close>

definition lane_invariant ::
  "ucp_constants \<Rightarrow> (abort \<Rightarrow> bool) \<Rightarrow> (ucp_wireup_select_ctx \<Rightarrow> bool) \<Rightarrow> bool" where
  "lane_invariant K A P \<longleftrightarrow>
     (\<forall>s info usg prx. P s \<longrightarrow> usg \<noteq> 0 \<longrightarrow> addr_index info < length (address_list s) \<longrightarrow>
        (case ucp_wireup_add_lane_desc K s info
                (md_index (address_list s ! addr_index info)) usg prx of
           Inl a \<Rightarrow> A a | Inr s' \<Rightarrow> P s')) \<and>
     (\<forall>s f. P s \<longrightarrow> P (s\<lparr>ep_init_flags := f\<rparr>)) \<and>
     (\<forall>s i. P s \<longrightarrow> P (s\<lparr>am_info := i\<rparr>))"

definition res_ok ::
  "(abort \<Rightarrow> bool) \<Rightarrow> (ucp_wireup_select_ctx \<Rightarrow> bool)
     \<Rightarrow> abort + ucs_status \<times> ucp_wireup_select_ctx \<Rightarrow> bool" where
  "res_ok A P r = (case r of Inl a \<Rightarrow> A a | Inr (st, s) \<Rightarrow> P s)"

definition res_ok' ::
  "(abort \<Rightarrow> bool) \<Rightarrow> (ucp_wireup_select_ctx \<Rightarrow> bool)
     \<Rightarrow> abort + ucp_wireup_select_ctx \<Rightarrow> bool" where
  "res_ok' A P r = (case r of Inl a \<Rightarrow> A a | Inr s \<Rightarrow> P s)"

lemma lane_invariant_add:
  assumes "lane_invariant K A P" "P s" "usg \<noteq> 0"
    "ucp_wireup_select_transport K w (address_list s) c tlb m ld rd = (UCS_OK, info)"
  shows "res_ok' A P (ucp_wireup_add_lane_desc K s info
           (md_index (address_list s ! addr_index info)) usg prx)"
proof -
  have "addr_index info < length (address_list s)"
    using select_transport_OK[OF assms(4)] by (simp add: pair_considered_def)
  with assms(1-3) show ?thesis
    unfolding lane_invariant_def res_ok'_def by blast
qed

lemma usage_consts_nonzero:
  "UCP_WIREUP_LANE_USAGE_AM \<noteq> 0" "UCP_WIREUP_LANE_USAGE_AM_BW \<noteq> 0"
  "UCP_WIREUP_LANE_USAGE_RMA \<noteq> 0" "UCP_WIREUP_LANE_USAGE_RMA_BW \<noteq> 0"
  "UCP_WIREUP_LANE_USAGE_AMO \<noteq> 0" "UCP_WIREUP_LANE_USAGE_TAG \<noteq> 0"
  by (simp_all add: UCP_WIREUP_LANE_USAGE_AM_def UCP_WIREUP_LANE_USAGE_AM_BW_def
        UCP_WIREUP_LANE_USAGE_RMA_def UCP_WIREUP_LANE_USAGE_RMA_BW_def
        UCP_WIREUP_LANE_USAGE_AMO_def UCP_WIREUP_LANE_USAGE_TAG_def)

lemma res_ok'_Inr: "res_ok' A P (Inr s) = P s" and res_ok'_Inl: "res_ok' A P (Inl a) = A a"
  by (simp_all add: res_ok'_def)

lemma res_ok_Inr: "res_ok A P (Inr (st, s)) = P s" and res_ok_Inl: "res_ok A P (Inl a) = A a"
  by (simp_all add: res_ok_def)

lemma res_ok_lift:
  "res_ok' A P r \<Longrightarrow> res_ok A P (case r of Inl a \<Rightarrow> Inl a | Inr s \<Rightarrow> Inr (st, s))"
  by (cases r) (simp_all add: res_ok_def res_ok'_def)

lemma lane_invariant_flags: "lane_invariant K A P \<Longrightarrow> P s \<Longrightarrow> P (s\<lparr>ep_init_flags := f\<rparr>)"
  and lane_invariant_am_info: "lane_invariant K A P \<Longrightarrow> P s \<Longrightarrow> P (s\<lparr>am_info := i\<rparr>)"
  unfolding lane_invariant_def by blast+

lemma memaccess_loop_inv:
  "lane_invariant K A P \<Longrightarrow> usg \<noteq> 0 \<Longrightarrow> P (fst st)
     \<Longrightarrow> res_ok' A P (memaccess_loop K c reg usg st)"
proof (induction K c reg usg st rule: memaccess_loop.induct)
  case (1 K c reg usg s tlb m)
  obtain status info where sel:
    "ucp_wireup_select_transport K (ep s) (address_list s) c tlb m (- 1) (- 1) = (status, info)"
    by (cases "ucp_wireup_select_transport K (ep s) (address_list s) c tlb m (- 1) (- 1)") auto
  let ?add = "ucp_wireup_add_lane_desc K s info (md_index (address_list s ! addr_index info))
                usg False"
  show ?case
  proof (cases "0 < address_count s \<and> status = UCS_OK \<and>
                \<not> ucp_wireup_score_cmp K (score info) reg \<le> 0")
    case False
    then show ?thesis using "1.prems" sel
      by (subst memaccess_loop.simps) (auto simp: res_ok'_def)
  next
    case True
    then have sel': "ucp_wireup_select_transport K (ep s) (address_list s) c tlb m (- 1) (- 1)
                     = (UCS_OK, info)"
      using sel by simp
    have add: "res_ok' A P ?add"
      using lane_invariant_add[OF "1.prems"(1) _ "1.prems"(2) sel'] "1.prems"(3) by simp
    show ?thesis
    proof (cases ?add)
      case (Inl a)
      then show ?thesis using add True sel'
        by (subst memaccess_loop.simps) (simp add: res_ok'_def)
    next
      case (Inr s')
      then have "P s'" using add by (simp add: res_ok'_def)
      then have "res_ok' A P (memaccess_loop K c reg usg
                   (s', ucp_wireup_unset_tl_by_md (ep s) tlb (rsc_index info),
                    m AND NOT (UCS_BIT (md_index (address_list s ! addr_index info)))))"
        using "1.IH"[OF _ sel'[symmetric] _ Inr "1.prems"(1,2)] True by simp
      then show ?thesis using True sel' Inr
        by (subst memaccess_loop.simps) simp
    qed
  qed
qed

lemma memaccess_out_inv:
  "lane_invariant K A P \<Longrightarrow> P s \<Longrightarrow> res_ok A P (memaccess_out s status)"
  by (auto simp: memaccess_out_def res_ok_def lane_invariant_flags)

lemma add_memaccess_lanes_inv:
  assumes inv: "lane_invariant K A P" and u: "usg \<noteq> 0" and P: "P s"
  shows "res_ok A P (ucp_wireup_add_memaccess_lanes K s c tlb usg)"
proof -
  let ?c1 = "c\<lparr>remote_md_flags := insert UCT_MD_FLAG_REG (remote_md_flags c)\<rparr>"
  obtain status info where sel:
    "ucp_wireup_select_transport K (ep s) (address_list s) ?c1 tlb (- 1) (- 1) (- 1)
       = (status, info)"
    by (cases "ucp_wireup_select_transport K (ep s) (address_list s) ?c1 tlb (- 1) (- 1) (- 1)")
       auto
  let ?add = "ucp_wireup_add_lane_desc K s info (md_index (address_list s ! addr_index info))
                usg False"
  show ?thesis
  proof (cases "status = UCS_OK")
    case False
    then show ?thesis using sel memaccess_out_inv[OF inv P]
      by (simp add: ucp_wireup_add_memaccess_lanes_def)
  next
    case True
    then have add: "res_ok' A P ?add"
      using lane_invariant_add[OF inv P u] sel by simp
    show ?thesis
    proof (cases ?add)
      case (Inl a)
      then show ?thesis using add True sel
        by (simp add: ucp_wireup_add_memaccess_lanes_def res_ok_def res_ok'_def)
    next
      case (Inr s1)
      then have "P s1" using add by (simp add: res_ok'_def)
      then have loop: "res_ok' A P (memaccess_loop K
            (c\<lparr>remote_md_flags := insert UCT_MD_FLAG_ALLOC (remote_md_flags c)\<rparr>)
            (score info) usg
            (s1, ucp_wireup_unset_tl_by_md (ep s) tlb (rsc_index info),
             (- 1) AND NOT (UCS_BIT (md_index (address_list s ! addr_index info)))))"
        using memaccess_loop_inv[OF inv u] by simp
      show ?thesis using True sel Inr loop memaccess_out_inv[OF inv]
        by (auto simp: ucp_wireup_add_memaccess_lanes_def Let_def res_ok'_def res_ok_Inl
                 split: sum.splits)
    qed
  qed
qed

lemma add_rma_lanes_inv:
  "lane_invariant K A P \<Longrightarrow> P s \<Longrightarrow> res_ok A P (ucp_wireup_add_rma_lanes K s)"
  by (simp add: ucp_wireup_add_rma_lanes_def res_ok_Inr add_memaccess_lanes_inv
        usage_consts_nonzero)

lemma add_amo_lanes_inv:
  "lane_invariant K A P \<Longrightarrow> P s \<Longrightarrow> res_ok A P (ucp_wireup_add_amo_lanes K s)"
  by (simp add: ucp_wireup_add_amo_lanes_def res_ok_Inr add_memaccess_lanes_inv
        usage_consts_nonzero)

lemma add_am_lane_inv:
  assumes inv: "lane_invariant K A P" and P: "P s"
  shows "res_ok A P (ucp_wireup_add_am_lane K s)"
proof (cases "ucp_wireup_is_am_required s")
  case False
  then show ?thesis using P by (simp add: ucp_wireup_add_am_lane_def res_ok_Inr)
next
  case True
  obtain status info where sel:
    "ucp_wireup_select_transport K (ep s) (address_list s) (am_criteria s)
       (- 1) (- 1) (- 1) (- 1) = (status, info)"
    by (cases "ucp_wireup_select_transport K (ep s) (address_list s) (am_criteria s)
                 (- 1) (- 1) (- 1) (- 1)") auto
  have P1: "P (s\<lparr>am_info := info\<rparr>)" by (rule lane_invariant_am_info[OF inv P])
  show ?thesis
  proof (cases "status = UCS_OK")
    case False
    then show ?thesis using True sel P1
      by (simp add: ucp_wireup_add_am_lane_def res_ok_Inr)
  next
    case ok: True
    have "res_ok' A P (ucp_wireup_add_lane_desc K (s\<lparr>am_info := info\<rparr>) info
            (md_index (address_list (s\<lparr>am_info := info\<rparr>) ! addr_index info))
            UCP_WIREUP_LANE_USAGE_AM
            (ucp_wireup_is_lane_proxy (ep s) (rsc_index info)
               (cap_flags (iface_attr (address_list s ! addr_index info)))))"
      by (rule lane_invariant_add[OF inv P1 usage_consts_nonzero(1)]) (use sel ok in simp)
    then show ?thesis using True sel ok
      by (auto simp: ucp_wireup_add_am_lane_def Let_def res_ok_def res_ok'_def
               split: sum.splits)
  qed
qed

lemma bw_lanes_loop_inv:
  "lane_invariant K A P \<Longrightarrow> bw_usage bw_info \<noteq> 0 \<Longrightarrow> P (fst st)
     \<Longrightarrow> res_ok' A P (bw_lanes_loop K bw_info allow_proxy tlb st)"
proof (induction K bw_info allow_proxy tlb st rule: bw_lanes_loop.induct)
  case (1 K bw_info allow_proxy tlb s n m ld rd)
  obtain status info where sel:
    "ucp_wireup_select_transport K (ep s) (address_list s) (bw_criteria bw_info) tlb (- 1) ld rd
       = (status, info)"
    by (cases "ucp_wireup_select_transport K (ep s) (address_list s) (bw_criteria bw_info)
                 tlb (- 1) ld rd") auto
  let ?ae = "address_list s ! addr_index info"
  let ?prx = "allow_proxy \<and> ucp_wireup_is_lane_proxy (ep s) (rsc_index info)
                               (cap_flags (iface_attr ?ae))"
  let ?add = "ucp_wireup_add_lane_desc K s info (md_index ?ae) (bw_usage bw_info) ?prx"
  show ?case
  proof (cases "n < bw_max_lanes bw_info \<and> ucs_popcount m < UCP_MAX_OP_MDS K \<and>
                status = UCS_OK")
    case False
    then show ?thesis using "1.prems" sel
      by (subst bw_lanes_loop.simps) (auto simp: res_ok'_def)
  next
    case True
    then have sel': "ucp_wireup_select_transport K (ep s) (address_list s) (bw_criteria bw_info)
                       tlb (- 1) ld rd = (UCS_OK, info)"
      using sel by simp
    have add: "res_ok' A P ?add"
      using lane_invariant_add[OF "1.prems"(1) _ "1.prems"(2) sel'] "1.prems"(3) by simp
    show ?thesis
    proof (cases ?add)
      case (Inl a)
      then show ?thesis using add True sel'
        by (subst bw_lanes_loop.simps) (simp add: res_ok'_def Let_def)
    next
      case (Inr s')
      then have Ps': "P s'" using add by (simp add: res_ok'_def)
      show ?thesis
      proof (cases "ucp_wireup_is_rsc_self_or_shm (ep s) (rsc_index info)")
        case shm: True
        then show ?thesis using True sel' Inr Ps'
          by (subst bw_lanes_loop.simps) (simp add: res_ok'_def Let_def)
      next
        case False
        have "res_ok' A P (bw_lanes_loop K bw_info allow_proxy tlb
                (s', n + 1,
                 m OR UCS_BIT (rsc_md_index (tl_rscs (wcontext (ep s)) ! rsc_index info)),
                 ld AND NOT (UCS_BIT (rsc_dev_index
                                        (tl_rscs (wcontext (ep s)) ! rsc_index info))),
                 rd AND NOT (UCS_BIT (dev_index ?ae))))"
          using "1.IH"[OF _ sel'[symmetric] _ refl refl refl Inr False "1.prems"(1,2)]
            True Ps' by simp
        then show ?thesis using True sel' Inr False
          by (subst bw_lanes_loop.simps) (simp add: Let_def)
      qed
    qed
  qed
qed

lemma add_bw_lanes_inv:
  "lane_invariant K A P \<Longrightarrow> bw_usage bw_info \<noteq> 0 \<Longrightarrow> P s
     \<Longrightarrow> res_ok A P (ucp_wireup_add_bw_lanes K s bw_info allow_proxy tlb)"
  using bw_lanes_loop_inv[of K A P bw_info
          "(s, 0, bw_md_map bw_info, bw_local_dev_bitmap bw_info, bw_remote_dev_bitmap bw_info)"
          allow_proxy tlb]
  by (auto simp: ucp_wireup_add_bw_lanes_def res_ok_def res_ok'_def split: sum.splits)

lemma rma_bw_mem_type_loop_inv:
  "lane_invariant K A P \<Longrightarrow> bw_usage bw_info \<noteq> 0 \<Longrightarrow> P s
     \<Longrightarrow> res_ok' A P (rma_bw_mem_type_loop K bw_info tlss s)"
proof (induction tlss arbitrary: s)
  case Nil
  then show ?case by (simp add: res_ok'_def)
next
  case (Cons tls rest)
  show ?case
  proof (cases "tls = 0")
    case True
    then show ?thesis using Cons by simp
  next
    case False
    have r: "res_ok A P (ucp_wireup_add_bw_lanes K s bw_info False tls)"
      by (rule add_bw_lanes_inv[OF Cons.prems])
    show ?thesis
    proof (cases "ucp_wireup_add_bw_lanes K s bw_info False tls")
      case (Inl a)
      then show ?thesis using r False by (simp add: res_ok_def res_ok'_def)
    next
      case (Inr x)
      obtain st s' where x: "x = (st, s')" by (cases x)
      with Inr r have "P s'" by (simp add: res_ok_def)
      then have "res_ok' A P (rma_bw_mem_type_loop K bw_info rest s')"
        by (rule Cons.IH[OF Cons.prems(1,2)])
      then show ?thesis using False Inr x by simp
    qed
  qed
qed

lemma add_rma_bw_lanes_inv:
  assumes "lane_invariant K A P" "P s"
  shows "res_ok A P (ucp_wireup_add_rma_bw_lanes K s)"
proof -
  have "\<And>f. res_ok A P (case rma_bw_mem_type_loop K (rma_bw_info s f)
                 (mem_type_access_tls (wcontext (ep s))) s of
               Inl a \<Rightarrow> Inl a | Inr s' \<Rightarrow> Inr (UCS_OK, s'))"
    by (rule res_ok_lift, rule rma_bw_mem_type_loop_inv[OF assms(1) _ assms(2)])
       (simp add: rma_bw_info_def usage_consts_nonzero)
  then show ?thesis using assms(2)
    by (simp add: ucp_wireup_add_rma_bw_lanes_def res_ok_Inr)
qed

lemma add_am_bw_lanes_inv:
  assumes "lane_invariant K A P" "P s"
  shows "res_ok A P (ucp_wireup_add_am_bw_lanes K s)"
proof -
  have "\<And>bw_info. bw_usage bw_info = UCP_WIREUP_LANE_USAGE_AM_BW
          \<Longrightarrow> res_ok A P (ucp_wireup_add_bw_lanes K s bw_info True (- 1))"
    by (rule add_bw_lanes_inv[OF assms(1) _ assms(2)]) (simp add: usage_consts_nonzero)
  then show ?thesis using assms(2)
    by (auto simp: ucp_wireup_add_am_bw_lanes_def Let_def res_ok_Inr split: option.splits)
qed

lemma add_tag_lane_inv:
  assumes inv: "lane_invariant K A P" and P: "P s"
  shows "res_ok A P (ucp_wireup_add_tag_lane K s em)"
proof -
  obtain status info where sel:
    "ucp_wireup_select_transport K (ep s) (address_list s) (tag_criteria s)
       (- 1) (- 1) (- 1) (- 1) = (status, info)"
    by (cases "ucp_wireup_select_transport K (ep s) (address_list s) (tag_criteria s)
                 (- 1) (- 1) (- 1) (- 1)") auto
  show ?thesis
  proof (cases "status = UCS_OK")
    case False
    then show ?thesis using sel P by (simp add: ucp_wireup_add_tag_lane_def res_ok_Inr)
  next
    case True
    have "res_ok A P (case ucp_wireup_add_lane_desc K s info
            (md_index (address_list s ! addr_index info)) UCP_WIREUP_LANE_USAGE_TAG
            (ucp_wireup_is_lane_proxy (ep s) (rsc_index info)
               (cap_flags (iface_attr (address_list s ! addr_index info)))) of
          Inl a \<Rightarrow> Inl a | Inr s' \<Rightarrow> Inr (UCS_OK, s'))"
      by (rule res_ok_lift, rule lane_invariant_add[OF inv P usage_consts_nonzero(6)])
         (use sel True in simp)
    then show ?thesis using sel True P
      by (simp add: ucp_wireup_add_tag_lane_def Let_def res_ok_Inr)
  qed
qed

lemma res_ok_bind:
  assumes "res_ok A P r" "\<And>s. P s \<Longrightarrow> res_ok A P (g s)"
  shows "res_ok A P (case r of Inl a \<Rightarrow> Inl a
                     | Inr (st, s) \<Rightarrow> if st \<noteq> UCS_OK then Inr (st, s) else g s)"
proof (cases r)
  case (Inl a)
  then show ?thesis using assms(1) by (simp add: res_ok_def)
next
  case (Inr x)
  obtain st s where x: "x = (st, s)" by (cases x)
  with Inr assms(1) have "P s" by (simp add: res_ok_def)
  then show ?thesis using assms(2)[of s] Inr x by (simp add: res_ok_Inr)
qed

lemma search_lanes_inv:
  assumes inv: "lane_invariant K A P" and P: "P s"
  shows "res_ok A P (ucp_wireup_search_lanes K s key)"
  unfolding ucp_wireup_search_lanes_def
  apply (rule res_ok_bind, rule add_rma_lanes_inv[OF inv P])
  apply (rule res_ok_bind, erule add_amo_lanes_inv[OF inv])
  apply (rule res_ok_bind, erule add_am_lane_inv[OF inv])
  apply (rule res_ok_bind, erule add_rma_bw_lanes_inv[OF inv])
  apply (rule res_ok_bind, erule add_tag_lane_inv[OF inv])
  apply (rule res_ok_bind, erule add_am_bw_lanes_inv[OF inv])
  apply (simp add: res_ok_Inr)
  done

subsection \<open>What the scan of \<open>ucp_wireup_add_lane_desc\<close> finds\<close>

definition same_pair :: "ucp_wireup_select_info \<Rightarrow> ucp_wireup_lane_desc \<Rightarrow> bool" where
  "same_pair info d \<longleftrightarrow> ld_rsc_index d = rsc_index info \<and> ld_addr_index d = addr_index info"

definition scan_spec ::
  "ucp_constants \<Rightarrow> ucp_wireup_select_info \<Rightarrow> nat \<Rightarrow> 32 word \<Rightarrow> bool \<Rightarrow> nat \<Rightarrow> nat list
     \<Rightarrow> ucp_wireup_lane_desc list \<Rightarrow> bool \<Rightarrow> lane_scan \<Rightarrow> bool" where
  "scan_spec K info dm usg prx n ls descs pc r =
     (case r of
        Scan_abort a \<Rightarrow>
          (a = Assert_dst_md_index \<longrightarrow>
             (\<exists>l\<in>set ls. same_pair info (descs ! l) \<and> dst_md_index (descs ! l) \<noteq> dm))
      | Out_add_lane l descs' \<Rightarrow>
          prx \<and> descs' = descs \<and> l \<in> set ls \<and> same_pair info (descs ! l) \<and>
          proxy_lane (descs ! l) = UCP_NULL_LANE K
      | Out_update_score l descs' \<Rightarrow>
          \<not> prx \<and> \<not> pc \<and> l \<in> set ls \<and> same_pair info (descs ! l) \<and>
          proxy_lane (descs ! l) = UCP_NULL_LANE K \<and>
          descs' = descs[l := (descs ! l)\<lparr>usage := usage (descs ! l) OR usg\<rparr>]
      | Scan_end descs' pc' \<Rightarrow>
          length descs' = length descs \<and>
          (\<forall>i<length descs. descs' ! i = descs ! i \<or>
              (\<not> prx \<and> i \<in> set ls \<and> same_pair info (descs ! i) \<and>
               proxy_lane (descs ! i) = i \<and> descs' ! i = (descs ! i)\<lparr>proxy_lane := n\<rparr>)) \<and>
          (\<forall>i\<in>set ls. same_pair info (descs ! i) \<longrightarrow>
              proxy_lane (descs ! i) \<noteq> UCP_NULL_LANE K \<or>
              (\<not> prx \<and> proxy_lane (descs ! i) = i)))"

lemma lane_scan_loop_Cons:
  "lane_scan_loop K info dst_md usg is_proxy n (lane # rest) descs proxy_changed =
     (if same_pair info (descs ! lane)
      then if dst_md \<noteq> dst_md_index (descs ! lane) then Scan_abort Assert_dst_md_index
           else if usage (descs ! lane) AND usg \<noteq> 0 then Scan_abort Assert_usage_overlap
           else if is_proxy \<and> proxy_lane (descs ! lane) = UCP_NULL_LANE K
             then Out_add_lane lane descs
           else if \<not> is_proxy \<and> proxy_lane (descs ! lane) = lane
             then lane_scan_loop K info dst_md usg is_proxy n rest
                    (descs[lane := (descs ! lane)\<lparr>proxy_lane := n\<rparr>]) True
           else if \<not> is_proxy \<and> proxy_lane (descs ! lane) = UCP_NULL_LANE K
             then if proxy_changed then Scan_abort Assert_proxy_changed
                  else Out_update_score lane
                         (descs[lane := (descs ! lane)\<lparr>usage := usage (descs ! lane) OR usg\<rparr>])
           else lane_scan_loop K info dst_md usg is_proxy n rest descs proxy_changed
      else lane_scan_loop K info dst_md usg is_proxy n rest descs proxy_changed)"
  by (simp add: same_pair_def Let_def)

lemma scan_spec_skip:
  assumes "scan_spec K info dm usg prx n rest descs pc r" "lane \<notin> set rest"
    "same_pair info (descs ! lane) \<longrightarrow> proxy_lane (descs ! lane) \<noteq> UCP_NULL_LANE K \<and>
        (prx \<or> proxy_lane (descs ! lane) \<noteq> lane)"
  shows "scan_spec K info dm usg prx n (lane # rest) descs pc r"
  using assms by (cases r) (auto simp: scan_spec_def)

lemma scan_spec_repoint:
  assumes "scan_spec K info dm usg prx n rest
             (descs[lane := (descs ! lane)\<lparr>proxy_lane := n\<rparr>]) True r"
    "lane \<notin> set rest" "lane < length descs" "\<not> prx" "same_pair info (descs ! lane)"
    "proxy_lane (descs ! lane) = lane"
  shows "scan_spec K info dm usg prx n (lane # rest) descs pc r"
proof (cases r)
  case (Scan_abort a)
  have "descs[lane := (descs ! lane)\<lparr>proxy_lane := n\<rparr>] ! l = descs ! l"
    if "l \<in> set rest" for l
    using that assms(2) by (metis nth_list_update_neq)
  then show ?thesis using assms Scan_abort by (auto simp: scan_spec_def)
next
  case (Out_add_lane l d')
  then show ?thesis using assms by (auto simp: scan_spec_def)
next
  case (Out_update_score l d')
  then show ?thesis using assms by (auto simp: scan_spec_def)
next
  case (Scan_end d' pc')
  let ?d2 = "descs[lane := (descs ! lane)\<lparr>proxy_lane := n\<rparr>]"
  from assms(1) Scan_end have
    len: "length d' = length descs" and
    ch: "\<forall>i<length descs. d' ! i = ?d2 ! i \<or>
              (\<not> prx \<and> i \<in> set rest \<and> same_pair info (?d2 ! i) \<and>
               proxy_lane (?d2 ! i) = i \<and> d' ! i = (?d2 ! i)\<lparr>proxy_lane := n\<rparr>)" and
    all: "\<forall>i\<in>set rest. same_pair info (?d2 ! i) \<longrightarrow>
              proxy_lane (?d2 ! i) \<noteq> UCP_NULL_LANE K \<or>
              (\<not> prx \<and> proxy_lane (?d2 ! i) = i)"
    by (auto simp: scan_spec_def)
  have ch': "\<forall>i<length descs. d' ! i = descs ! i \<or>
              (\<not> prx \<and> i \<in> set (lane # rest) \<and> same_pair info (descs ! i) \<and>
               proxy_lane (descs ! i) = i \<and> d' ! i = (descs ! i)\<lparr>proxy_lane := n\<rparr>)"
  proof (intro allI impI)
    fix i assume i: "i < length descs"
    show "d' ! i = descs ! i \<or>
              (\<not> prx \<and> i \<in> set (lane # rest) \<and> same_pair info (descs ! i) \<and>
               proxy_lane (descs ! i) = i \<and> d' ! i = (descs ! i)\<lparr>proxy_lane := n\<rparr>)"
    proof (cases "i = lane")
      case True
      then show ?thesis using ch[rule_format, OF i] assms(2-) by auto
    next
      case False
      then show ?thesis using ch[rule_format, OF i] by auto
    qed
  qed
  have all': "\<forall>i\<in>set (lane # rest). same_pair info (descs ! i) \<longrightarrow>
              proxy_lane (descs ! i) \<noteq> UCP_NULL_LANE K \<or>
              (\<not> prx \<and> proxy_lane (descs ! i) = i)"
  proof
    fix i assume i: "i \<in> set (lane # rest)"
    show "same_pair info (descs ! i) \<longrightarrow>
              proxy_lane (descs ! i) \<noteq> UCP_NULL_LANE K \<or>
              (\<not> prx \<and> proxy_lane (descs ! i) = i)"
    proof (cases "i = lane")
      case True
      then show ?thesis using assms(4,6) by simp
    next
      case False
      then have "i \<in> set rest" and "?d2 ! i = descs ! i" using i by auto
      then show ?thesis using all by auto
    qed
  qed
  show ?thesis using Scan_end len ch' all' by (simp add: scan_spec_def)
qed

lemma lane_scan_loop_spec:
  "distinct ls \<Longrightarrow> set ls \<subseteq> {..<length descs}
     \<Longrightarrow> scan_spec K info dm usg prx n ls descs pc
           (lane_scan_loop K info dm usg prx n ls descs pc)"
proof (induction ls arbitrary: descs pc)
  case Nil
  then show ?case by (simp add: scan_spec_def)
next
  case (Cons lane rest)
  let ?d = "descs ! lane"
  have nin: "lane \<notin> set rest" and lt: "lane < length descs"
    and dr: "distinct rest" and sub: "set rest \<subseteq> {..<length descs}"
    using Cons.prems by auto
  note IH = Cons.IH[OF dr]
  consider (nomatch) "\<not> same_pair info ?d"
    | (amd) "same_pair info ?d" "dm \<noteq> dst_md_index ?d"
    | (aus) "same_pair info ?d" "dm = dst_md_index ?d" "usage ?d AND usg \<noteq> 0"
    | (addl) "same_pair info ?d" "dm = dst_md_index ?d" "usage ?d AND usg = 0"
         "prx" "proxy_lane ?d = UCP_NULL_LANE K"
    | (rep) "same_pair info ?d" "dm = dst_md_index ?d" "usage ?d AND usg = 0"
         "\<not> prx" "proxy_lane ?d = lane"
    | (mrg) "same_pair info ?d" "dm = dst_md_index ?d" "usage ?d AND usg = 0"
         "\<not> prx" "proxy_lane ?d \<noteq> lane" "proxy_lane ?d = UCP_NULL_LANE K"
    | (skip) "same_pair info ?d" "dm = dst_md_index ?d" "usage ?d AND usg = 0"
         "proxy_lane ?d \<noteq> UCP_NULL_LANE K" "prx \<or> proxy_lane ?d \<noteq> lane"
    by blast
  then show ?case
  proof cases
    case nomatch
    then have "lane_scan_loop K info dm usg prx n (lane # rest) descs pc
               = lane_scan_loop K info dm usg prx n rest descs pc"
      by (simp add: lane_scan_loop_Cons del: lane_scan_loop.simps)
    then show ?thesis using scan_spec_skip[OF IH[OF sub] nin] nomatch by simp
  next
    case amd
    then show ?thesis
      by (simp add: lane_scan_loop_Cons scan_spec_def del: lane_scan_loop.simps)
  next
    case aus
    then show ?thesis
      by (simp add: lane_scan_loop_Cons scan_spec_def del: lane_scan_loop.simps)
  next
    case addl
    then show ?thesis
      by (simp add: lane_scan_loop_Cons scan_spec_def del: lane_scan_loop.simps)
  next
    case rep
    then have "lane_scan_loop K info dm usg prx n (lane # rest) descs pc
               = lane_scan_loop K info dm usg prx n rest (descs[lane := ?d\<lparr>proxy_lane := n\<rparr>]) True"
      by (simp add: lane_scan_loop_Cons del: lane_scan_loop.simps)
    moreover have "scan_spec K info dm usg prx n rest (descs[lane := ?d\<lparr>proxy_lane := n\<rparr>]) True
       (lane_scan_loop K info dm usg prx n rest (descs[lane := ?d\<lparr>proxy_lane := n\<rparr>]) True)"
      by (rule IH) (use sub in simp)
    ultimately show ?thesis using scan_spec_repoint[OF _ nin lt rep(4,1,5)] by simp
  next
    case mrg
    then show ?thesis
      by (simp add: lane_scan_loop_Cons scan_spec_def del: lane_scan_loop.simps)
  next
    case skip
    then have "lane_scan_loop K info dm usg prx n (lane # rest) descs pc
               = lane_scan_loop K info dm usg prx n rest descs pc"
      by (auto simp add: lane_scan_loop_Cons simp del: lane_scan_loop.simps)
    then show ?thesis using scan_spec_skip[OF IH[OF sub] nin] skip by auto
  qed
qed

lemma update_score_fields [simp]:
  "ld_rsc_index (update_score info usg d) = ld_rsc_index d"
  "ld_addr_index (update_score info usg d) = ld_addr_index d"
  "proxy_lane (update_score info usg d) = proxy_lane d"
  "dst_md_index (update_score info usg d) = dst_md_index d"
  "usage (update_score info usg d) = usage d"
  by (simp_all add: update_score_def Let_def)

definition new_lane_desc ::
  "ucp_wireup_select_info \<Rightarrow> nat \<Rightarrow> 32 word \<Rightarrow> nat \<Rightarrow> ucp_wireup_lane_desc" where
  "new_lane_desc info dst_md usg pl =
     update_score info usg
       \<lparr>ld_rsc_index = rsc_index info, ld_addr_index = addr_index info,
        proxy_lane = pl, dst_md_index = dst_md, usage = usg,
        am_bw_score = 0, rma_score = 0, rma_bw_score = 0, amo_score = 0\<rparr>"

lemma new_lane_desc_fields [simp]:
  "ld_rsc_index (new_lane_desc info dm usg pl) = rsc_index info"
  "ld_addr_index (new_lane_desc info dm usg pl) = addr_index info"
  "proxy_lane (new_lane_desc info dm usg pl) = pl"
  "dst_md_index (new_lane_desc info dm usg pl) = dm"
  "usage (new_lane_desc info dm usg pl) = usg"
  by (simp_all add: new_lane_desc_def)

lemma same_pair_new_lane [simp]: "same_pair info (new_lane_desc info dm usg pl)"
  by (simp add: same_pair_def)

text \<open>The three ways in which \<open>ucp_wireup_add_lane_desc\<close> returns.\<close>

lemma add_lane_desc_cases:
  assumes "ucp_wireup_add_lane_desc K s info dm usg prx = Inr s'"
  obtains
    (merge) l where "\<not> prx" "l < length (lane_descs s)" "same_pair info (lane_descs s ! l)"
      "proxy_lane (lane_descs s ! l) = UCP_NULL_LANE K"
      "s' = s\<lparr>lane_descs := (lane_descs s)[l := update_score info usg
               ((lane_descs s ! l)\<lparr>usage := usage (lane_descs s ! l) OR usg\<rparr>)]\<rparr>"
  | (proxy_to) l where "prx" "l < length (lane_descs s)" "same_pair info (lane_descs s ! l)"
      "proxy_lane (lane_descs s ! l) = UCP_NULL_LANE K"
      "length (lane_descs s) < UCP_MAX_LANES K"
      "s' = s\<lparr>lane_descs := lane_descs s @ [new_lane_desc info dm usg l]\<rparr>"
  | (append) descs' where "length (lane_descs s) < UCP_MAX_LANES K"
      "length descs' = length (lane_descs s)"
      "\<forall>i<length (lane_descs s). descs' ! i = lane_descs s ! i \<or>
          (\<not> prx \<and> same_pair info (lane_descs s ! i) \<and> proxy_lane (lane_descs s ! i) = i \<and>
           descs' ! i = (lane_descs s ! i)\<lparr>proxy_lane := length (lane_descs s)\<rparr>)"
      "\<forall>i<length (lane_descs s). same_pair info (lane_descs s ! i) \<longrightarrow>
          proxy_lane (lane_descs s ! i) \<noteq> UCP_NULL_LANE K \<or>
          (\<not> prx \<and> proxy_lane (lane_descs s ! i) = i)"
      "s' = s\<lparr>lane_descs := descs' @ [new_lane_desc info dm usg
               (if prx then length (lane_descs s) else UCP_NULL_LANE K)]\<rparr>"
proof -
  let ?n = "length (lane_descs s)"
  let ?r = "lane_scan_loop K info dm usg prx ?n [0..<?n] (lane_descs s) False"
  have spec: "scan_spec K info dm usg prx ?n [0..<?n] (lane_descs s) False ?r"
    by (rule lane_scan_loop_spec) auto
  show thesis
  proof (cases ?r)
    case (Scan_abort a)
    then show ?thesis using assms
      by (simp add: ucp_wireup_add_lane_desc_def num_lanes_def Let_def)
  next
    case (Out_add_lane l descs')
    with spec have "prx" "descs' = lane_descs s" "l < ?n" "same_pair info (lane_descs s ! l)"
      "proxy_lane (lane_descs s ! l) = UCP_NULL_LANE K"
      by (auto simp: scan_spec_def)
    moreover from assms Out_add_lane have "?n < UCP_MAX_LANES K"
      "s' = s\<lparr>lane_descs := lane_descs s @ [new_lane_desc info dm usg l]\<rparr>"
      using \<open>descs' = lane_descs s\<close>
      by (auto simp: ucp_wireup_add_lane_desc_def num_lanes_def out_add_lane_def Let_def
            new_lane_desc_def split: if_splits)
    ultimately show ?thesis using proxy_to by blast
  next
    case (Out_update_score l descs')
    with spec have "\<not> prx" "l < ?n" "same_pair info (lane_descs s ! l)"
      "proxy_lane (lane_descs s ! l) = UCP_NULL_LANE K"
      and d: "descs' = (lane_descs s)[l := (lane_descs s ! l)
                          \<lparr>usage := usage (lane_descs s ! l) OR usg\<rparr>]"
      by (auto simp: scan_spec_def)
    moreover from assms Out_update_score d \<open>l < ?n\<close> have
      "s' = s\<lparr>lane_descs := (lane_descs s)[l := update_score info usg
               ((lane_descs s ! l)\<lparr>usage := usage (lane_descs s ! l) OR usg\<rparr>)]\<rparr>"
      by (auto simp: ucp_wireup_add_lane_desc_def num_lanes_def Let_def)
    ultimately show ?thesis using merge by blast
  next
    case (Scan_end descs' pc')
    with spec have "length descs' = ?n"
      "\<forall>i<?n. descs' ! i = lane_descs s ! i \<or>
          (\<not> prx \<and> same_pair info (lane_descs s ! i) \<and> proxy_lane (lane_descs s ! i) = i \<and>
           descs' ! i = (lane_descs s ! i)\<lparr>proxy_lane := ?n\<rparr>)"
      "\<forall>i<?n. same_pair info (lane_descs s ! i) \<longrightarrow>
          proxy_lane (lane_descs s ! i) \<noteq> UCP_NULL_LANE K \<or>
          (\<not> prx \<and> proxy_lane (lane_descs s ! i) = i)"
      by (auto simp: scan_spec_def)
    moreover from assms Scan_end \<open>length descs' = ?n\<close> have "?n < UCP_MAX_LANES K"
      "s' = s\<lparr>lane_descs := descs' @ [new_lane_desc info dm usg
               (if prx then ?n else UCP_NULL_LANE K)]\<rparr>"
      by (auto simp: ucp_wireup_add_lane_desc_def num_lanes_def out_add_lane_def Let_def
            new_lane_desc_def split: if_splits)
    ultimately show ?thesis using append by blast
  qed
qed

lemma add_lane_desc_abort_dst_md:
  assumes "ucp_wireup_add_lane_desc K s info dm usg prx = Inl Assert_dst_md_index"
  shows "\<exists>l<length (lane_descs s). same_pair info (lane_descs s ! l) \<and>
            dst_md_index (lane_descs s ! l) \<noteq> dm"
proof -
  let ?n = "length (lane_descs s)"
  let ?r = "lane_scan_loop K info dm usg prx ?n [0..<?n] (lane_descs s) False"
  have spec: "scan_spec K info dm usg prx ?n [0..<?n] (lane_descs s) False ?r"
    by (rule lane_scan_loop_spec) auto
  from assms have "?r = Scan_abort Assert_dst_md_index"
    by (auto simp: ucp_wireup_add_lane_desc_def num_lanes_def out_add_lane_def Let_def
             split: lane_scan.splits if_splits)
  with spec show ?thesis by (auto simp: scan_spec_def)
qed

subsection \<open>The remote MD index of a lane\<close>

definition dst_md_inv :: "ucp_wireup_select_ctx \<Rightarrow> bool" where
  "dst_md_inv s \<longleftrightarrow>
     (\<forall>i<length (lane_descs s).
        dst_md_index (lane_descs s ! i) =
        md_index (address_list s ! ld_addr_index (lane_descs s ! i)))"

lemma dst_md_lane_invariant: "lane_invariant K (\<lambda>a. a \<noteq> Assert_dst_md_index) dst_md_inv"
  unfolding lane_invariant_def
proof (intro conjI allI impI)
  fix s :: ucp_wireup_select_ctx and info :: ucp_wireup_select_info
    and usg :: "32 word" and prx :: bool
  assume inv: "dst_md_inv s"
  let ?dm = "md_index (address_list s ! addr_index info)"
  let ?r = "ucp_wireup_add_lane_desc K s info ?dm usg prx"
  show "case ?r of Inl a \<Rightarrow> a \<noteq> Assert_dst_md_index | Inr s' \<Rightarrow> dst_md_inv s'"
  proof (cases ?r)
    case (Inl a)
    have "a \<noteq> Assert_dst_md_index"
    proof
      assume "a = Assert_dst_md_index"
      with Inl obtain l where "l < length (lane_descs s)" "same_pair info (lane_descs s ! l)"
        "dst_md_index (lane_descs s ! l) \<noteq> ?dm"
        using add_lane_desc_abort_dst_md by blast
      with inv show False by (simp add: dst_md_inv_def same_pair_def)
    qed
    with Inl show ?thesis by simp
  next
    case (Inr s')
    from Inr have "dst_md_inv s'"
    proof (cases rule: add_lane_desc_cases)
      case (merge l)
      then show ?thesis using inv
        by (auto simp: dst_md_inv_def nth_list_update)
    next
      case (proxy_to l)
      then show ?thesis using inv
        by (auto simp: dst_md_inv_def nth_append)
    next
      case (append descs')
      show ?thesis unfolding dst_md_inv_def
      proof (intro allI impI)
        fix i assume "i < length (lane_descs s')"
        then have "i < length (lane_descs s) \<or> i = length (lane_descs s)"
          using append by auto
        then show "dst_md_index (lane_descs s' ! i) =
                   md_index (address_list s' ! ld_addr_index (lane_descs s' ! i))"
        proof
          assume i: "i < length (lane_descs s)"
          with append(3) have "dst_md_index (descs' ! i) = dst_md_index (lane_descs s ! i)"
            "ld_addr_index (descs' ! i) = ld_addr_index (lane_descs s ! i)"
            by auto
          then show ?thesis using i inv append(2,5) by (simp add: dst_md_inv_def nth_append)
        next
          assume "i = length (lane_descs s)"
          then show ?thesis using append(2,5) by (simp add: nth_append)
        qed
      qed
    qed
    with Inr show ?thesis by simp
  qed
qed (simp_all add: dst_md_inv_def)

subsection \<open>Lane count and usage bits\<close>

definition usage_inv :: "ucp_constants \<Rightarrow> ucp_wireup_select_ctx \<Rightarrow> bool" where
  "usage_inv K s \<longleftrightarrow>
     length (lane_descs s) \<le> UCP_MAX_LANES K \<and>
     (\<forall>i<length (lane_descs s). usage (lane_descs s ! i) \<noteq> 0)"

lemma usage_lane_invariant: "lane_invariant K (\<lambda>a. True) (usage_inv K)"
  unfolding lane_invariant_def
proof (intro conjI allI impI)
  fix s :: ucp_wireup_select_ctx and info :: ucp_wireup_select_info
    and usg :: "32 word" and prx :: bool
  assume inv: "usage_inv K s" and u: "usg \<noteq> 0"
  let ?dm = "md_index (address_list s ! addr_index info)"
  let ?r = "ucp_wireup_add_lane_desc K s info ?dm usg prx"
  show "case ?r of Inl a \<Rightarrow> True | Inr s' \<Rightarrow> usage_inv K s'"
  proof (cases ?r)
    case (Inl a)
    then show ?thesis by simp
  next
    case (Inr s')
    from Inr have "usage_inv K s'"
    proof (cases rule: add_lane_desc_cases)
      case (merge l)
      then show ?thesis using inv u
        by (auto simp: usage_inv_def nth_list_update or_eq_0_iff)
    next
      case (proxy_to l)
      then show ?thesis using inv u
        by (auto simp: usage_inv_def nth_append)
    next
      case (append descs')
      have "usage (descs' ! i) \<noteq> 0" if "i < length (lane_descs s)" for i
      proof -
        from append(3) that have "usage (descs' ! i) = usage (lane_descs s ! i)" by auto
        then show ?thesis using inv that by (simp add: usage_inv_def)
      qed
      then show ?thesis using append(1,2,5) u
        by (auto simp: usage_inv_def nth_append)
    qed
    with Inr show ?thesis by simp
  qed
qed (simp_all add: usage_inv_def)

subsection \<open>Proxy lanes\<close>

definition proxy_lane_ok ::
  "ucp_constants \<Rightarrow> ucp_wireup_lane_desc list \<Rightarrow> nat \<Rightarrow> bool" where
  "proxy_lane_ok K descs i \<longleftrightarrow>
     (let p = proxy_lane (descs ! i)
      in p = UCP_NULL_LANE K \<or> p = i \<or>
         (p < length descs \<and> proxy_lane (descs ! p) = UCP_NULL_LANE K \<and>
          ld_rsc_index (descs ! p) = ld_rsc_index (descs ! i) \<and>
          ld_addr_index (descs ! p) = ld_addr_index (descs ! i)))"

definition proxy_inv :: "ucp_constants \<Rightarrow> ucp_wireup_select_ctx \<Rightarrow> bool" where
  "proxy_inv K s \<longleftrightarrow>
     length (lane_descs s) \<le> UCP_MAX_LANES K \<and>
     (\<forall>i<length (lane_descs s). proxy_lane_ok K (lane_descs s) i)"

lemma proxy_inv_add:
  assumes sentinel: "UCP_MAX_LANES K \<le> UCP_NULL_LANE K"
    and inv: "proxy_inv K s"
    and add: "ucp_wireup_add_lane_desc K s info dm usg prx = Inr s'"
  shows "proxy_inv K s'"
proof -
  let ?n = "length (lane_descs s)"
  from inv have len: "?n \<le> UCP_MAX_LANES K"
    and ok: "\<And>i. i < ?n \<Longrightarrow> proxy_lane_ok K (lane_descs s) i"
    by (auto simp: proxy_inv_def)
  from add show ?thesis
  proof (cases rule: add_lane_desc_cases)
    case (merge l)
    have "proxy_lane_ok K (lane_descs s') i" if "i < ?n" for i
      using ok[OF that] that merge(2,5)
      by (auto simp: proxy_lane_ok_def Let_def nth_list_update)
    then show ?thesis using merge(5) len by (simp add: proxy_inv_def)
  next
    case (proxy_to l)
    have "proxy_lane_ok K (lane_descs s') i" if "i < ?n" for i
      using ok[OF that] that proxy_to(6)
      by (auto simp: proxy_lane_ok_def Let_def nth_append)
    moreover have "proxy_lane_ok K (lane_descs s') ?n"
      using proxy_to by (auto simp: proxy_lane_ok_def Let_def nth_append same_pair_def)
    ultimately have "\<forall>i<length (lane_descs s'). proxy_lane_ok K (lane_descs s') i"
      using proxy_to(6) by (auto simp: less_Suc_eq)
    then show ?thesis using proxy_to(5,6) by (simp add: proxy_inv_def)
  next
    case (append descs')
    let ?new = "new_lane_desc info dm usg (if prx then ?n else UCP_NULL_LANE K)"
    have s': "lane_descs s' = descs' @ [?new]" using append(5) by simp
    have nlt: "?n < UCP_NULL_LANE K" using append(1) sentinel by simp
    have old: "proxy_lane_ok K (lane_descs s') i" if i: "i < ?n" for i
    proof -
      from append(3) i consider
          (same) "descs' ! i = lane_descs s ! i"
        | (rep) "\<not> prx" "same_pair info (lane_descs s ! i)" "proxy_lane (lane_descs s ! i) = i"
                "descs' ! i = (lane_descs s ! i)\<lparr>proxy_lane := ?n\<rparr>"
        by blast
      then show ?thesis
      proof cases
        case same
        let ?p = "proxy_lane (lane_descs s ! i)"
        from ok[OF i] consider "?p = UCP_NULL_LANE K" | "?p = i"
          | "?p < ?n" "proxy_lane (lane_descs s ! ?p) = UCP_NULL_LANE K"
            "ld_rsc_index (lane_descs s ! ?p) = ld_rsc_index (lane_descs s ! i)"
            "ld_addr_index (lane_descs s ! ?p) = ld_addr_index (lane_descs s ! i)"
          by (auto simp: proxy_lane_ok_def Let_def)
        then show ?thesis
        proof cases
          case 1
          then show ?thesis using same i append(2) s'
            by (simp add: proxy_lane_ok_def Let_def nth_append)
        next
          case 2
          then show ?thesis using same i append(2) s'
            by (simp add: proxy_lane_ok_def Let_def nth_append)
        next
          case 3
          have "proxy_lane (lane_descs s ! ?p) \<noteq> ?p" using 3(1,2) nlt by simp
          with append(3) 3(1) have "descs' ! ?p = lane_descs s ! ?p" by blast
          then show ?thesis using 3 same i append(2) s'
            by (simp add: proxy_lane_ok_def Let_def nth_append)
        qed
      next
        case rep
        then show ?thesis using i append(2) s'
          by (simp add: proxy_lane_ok_def Let_def nth_append same_pair_def)
      qed
    qed
    have new: "proxy_lane_ok K (lane_descs s') ?n"
      using append(2) s' by (simp add: proxy_lane_ok_def Let_def nth_append)
    have "\<forall>i<length (lane_descs s'). proxy_lane_ok K (lane_descs s') i"
      using old new append(2) s' by (auto simp: less_Suc_eq)
    then show ?thesis using append(1,2) s' by (simp add: proxy_inv_def)
  qed
qed

lemma proxy_lane_invariant:
  assumes "UCP_MAX_LANES K \<le> UCP_NULL_LANE K"
  shows "lane_invariant K (\<lambda>a. True) (proxy_inv K)"
  unfolding lane_invariant_def
proof (intro conjI allI impI)
  fix s :: ucp_wireup_select_ctx and info :: ucp_wireup_select_info
    and usg :: "32 word" and prx :: bool
  assume "proxy_inv K s"
  then show "case ucp_wireup_add_lane_desc K s info
                   (md_index (address_list s ! addr_index info)) usg prx of
               Inl a \<Rightarrow> True | Inr s' \<Rightarrow> proxy_inv K s'"
    using proxy_inv_add[OF assms] by (simp split: sum.splits)
qed (simp_all add: proxy_inv_def)

subsection \<open>At most one non-proxy lane per pair\<close>

definition nonproxy_unique :: "ucp_constants \<Rightarrow> ucp_wireup_lane_desc list \<Rightarrow> bool" where
  "nonproxy_unique K descs \<longleftrightarrow>
     (\<forall>i<length descs. \<forall>j<length descs.
        i \<noteq> j \<and> proxy_lane (descs ! i) = UCP_NULL_LANE K \<and>
        proxy_lane (descs ! j) = UCP_NULL_LANE K \<longrightarrow>
        (ld_rsc_index (descs ! i), ld_addr_index (descs ! i)) \<noteq>
        (ld_rsc_index (descs ! j), ld_addr_index (descs ! j)))"

definition unique_inv :: "ucp_constants \<Rightarrow> ucp_wireup_select_ctx \<Rightarrow> bool" where
  "unique_inv K s \<longleftrightarrow>
     length (lane_descs s) \<le> UCP_MAX_LANES K \<and> nonproxy_unique K (lane_descs s)"

lemma unique_inv_add:
  assumes sentinel: "UCP_MAX_LANES K \<le> UCP_NULL_LANE K"
    and inv: "unique_inv K s"
    and add: "ucp_wireup_add_lane_desc K s info dm usg prx = Inr s'"
  shows "unique_inv K s'"
proof -
  let ?n = "length (lane_descs s)"
  from inv have len: "?n \<le> UCP_MAX_LANES K" and uq: "nonproxy_unique K (lane_descs s)"
    by (auto simp: unique_inv_def)
  from add show ?thesis
  proof (cases rule: add_lane_desc_cases)
    case (merge l)
    have "nonproxy_unique K (lane_descs s')"
      using uq merge(2,5)
      by (simp add: nonproxy_unique_def nth_list_update)
    then show ?thesis using merge(5) len by (simp add: unique_inv_def)
  next
    case (proxy_to l)
    have "l < UCP_NULL_LANE K" using proxy_to(2,5) sentinel by simp
    then have "nonproxy_unique K (lane_descs s')"
      using uq proxy_to(6)
      by (auto simp: nonproxy_unique_def nth_append less_Suc_eq)
    then show ?thesis using proxy_to(5,6) by (simp add: unique_inv_def)
  next
    case (append descs')
    let ?new = "new_lane_desc info dm usg (if prx then ?n else UCP_NULL_LANE K)"
    have s': "lane_descs s' = descs' @ [?new]" using append(5) by simp
    have nlt: "?n < UCP_NULL_LANE K" using append(1) sentinel by simp
    have keep: "descs' ! i = lane_descs s ! i"
      if "i < ?n" "proxy_lane (descs' ! i) = UCP_NULL_LANE K" for i
      using append(3) that nlt by auto
    have nomatch: "\<not> same_pair info (lane_descs s ! i)"
      if "i < ?n" "proxy_lane (descs' ! i) = UCP_NULL_LANE K" for i
      using append(4) keep[OF that] that nlt by auto
    show ?thesis unfolding unique_inv_def
    proof
      show "length (lane_descs s') \<le> UCP_MAX_LANES K" using append(1,2) s' by simp
      show "nonproxy_unique K (lane_descs s')"
        unfolding nonproxy_unique_def
      proof (intro allI impI)
        fix i j
        assume i: "i < length (lane_descs s')" and j: "j < length (lane_descs s')"
          and h: "i \<noteq> j \<and> proxy_lane (lane_descs s' ! i) = UCP_NULL_LANE K \<and>
                  proxy_lane (lane_descs s' ! j) = UCP_NULL_LANE K"
        have pair_new: "(ld_rsc_index (lane_descs s ! k), ld_addr_index (lane_descs s ! k))
                        \<noteq> (rsc_index info, addr_index info)"
          if "k < ?n" "proxy_lane (descs' ! k) = UCP_NULL_LANE K" for k
          using nomatch[OF that] by (auto simp: same_pair_def)
        consider (both) "i < ?n" "j < ?n" | (inew) "i = ?n" "j < ?n" | (jnew) "i < ?n" "j = ?n"
          using i j h s' append(2) by (auto simp: less_Suc_eq)
        then show "(ld_rsc_index (lane_descs s' ! i), ld_addr_index (lane_descs s' ! i)) \<noteq>
                   (ld_rsc_index (lane_descs s' ! j), ld_addr_index (lane_descs s' ! j))"
        proof cases
          case both
          then have "proxy_lane (descs' ! i) = UCP_NULL_LANE K"
            "proxy_lane (descs' ! j) = UCP_NULL_LANE K"
            using h s' append(2) by (simp_all add: nth_append)
          then have "descs' ! i = lane_descs s ! i" "descs' ! j = lane_descs s ! j"
            using keep both by auto
          then show ?thesis using uq both h s' append(2)
            by (simp add: nonproxy_unique_def nth_append)
        next
          case inew
          then have pj: "proxy_lane (descs' ! j) = UCP_NULL_LANE K"
            using h s' append(2) by (simp add: nth_append)
          from keep[OF inew(2) pj] pair_new[OF inew(2) pj] show ?thesis
            using inew s' append(2) by (auto simp: nth_append)
        next
          case jnew
          then have pi: "proxy_lane (descs' ! i) = UCP_NULL_LANE K"
            using h s' append(2) by (simp add: nth_append)
          from keep[OF jnew(1) pi] pair_new[OF jnew(1) pi] show ?thesis
            using jnew s' append(2) by (auto simp: nth_append)
        qed
      qed
    qed
  qed
qed

lemma unique_lane_invariant:
  assumes "UCP_MAX_LANES K \<le> UCP_NULL_LANE K"
  shows "lane_invariant K (\<lambda>a. True) (unique_inv K)"
  unfolding lane_invariant_def
proof (intro conjI allI impI)
  fix s :: ucp_wireup_select_ctx and info :: ucp_wireup_select_info
    and usg :: "32 word" and prx :: bool
  assume "unique_inv K s"
  then show "case ucp_wireup_add_lane_desc K s info
                   (md_index (address_list s ! addr_index info)) usg prx of
               Inl a \<Rightarrow> True | Inr s' \<Rightarrow> unique_inv K s'"
    using unique_inv_add[OF assms] by (simp split: sum.splits)
qed (simp_all add: unique_inv_def)

subsection \<open>The selections of the memory-access passes\<close>

text \<open>
  The lanes of \<open>ucp_wireup_add_memaccess_lanes\<close> come from a sequence of selections that
  does not depend on the lane table: the loop reads the table only through
  \<open>ucp_wireup_add_lane_desc\<close>, which leaves the endpoint and the address list alone.
  \<open>add_lanes\<close> adds one lane per selection, in order. \<open>alloc_selections\<close> is the sequence
  of the selections that the loop admits, from the transport bitmap and the remote MD map
  it starts with.
\<close>

fun add_lanes ::
  "ucp_constants \<Rightarrow> 32 word \<Rightarrow> ucp_wireup_select_info list \<Rightarrow> ucp_wireup_select_ctx
     \<Rightarrow> abort + ucp_wireup_select_ctx" where
  "add_lanes K usg [] s = Inr s"
| "add_lanes K usg (info # infos) s =
     (case ucp_wireup_add_lane_desc K s info
             (md_index (address_list s ! addr_index info)) usg False of
        Inl a \<Rightarrow> Inl a
      | Inr s' \<Rightarrow> add_lanes K usg infos s')"

function alloc_selections ::
  "ucp_constants \<Rightarrow> ucp_worker \<Rightarrow> ucp_address_entry list \<Rightarrow> ucp_wireup_criteria \<Rightarrow> real
     \<Rightarrow> 64 word \<times> 64 word \<Rightarrow> ucp_wireup_select_info list" where
  "alloc_selections K w al mem_criteria reg_score (tl_bitmap', remote_md_map) =
     (if length al > 0
      then (case ucp_wireup_select_transport K w al mem_criteria tl_bitmap' remote_md_map
                   (-1) (-1) of
              (status, select_info) \<Rightarrow>
                if status \<noteq> UCS_OK \<or>
                   ucp_wireup_score_cmp K (score select_info) reg_score \<le> 0
                then []
                else select_info #
                     alloc_selections K w al mem_criteria reg_score
                       (ucp_wireup_unset_tl_by_md w tl_bitmap' (rsc_index select_info),
                        remote_md_map AND NOT (UCS_BIT
                          (md_index (al ! addr_index select_info)))))
      else [])"
  by pat_completeness auto

termination alloc_selections
  apply (relation "measure (\<lambda>(K, w, al, c, r, t, m). memaccess_measure w t)")
   apply simp
  apply (auto intro!: memaccess_measure_less dest: sym)
  done

declare alloc_selections.simps [simp del]

text \<open>
  The admitted selections in the words of the specification: each is the OK result of a
  selection under the criteria of the loop, on the transports and remote MDs that are
  still allowed, and its score beats the score of the first selection; after it, its
  remote MD and the transports on its local MD are no longer allowed; the sequence ends
  where the next selection fails or does not beat that score.
\<close>

fun admitted ::
  "ucp_constants \<Rightarrow> ucp_worker \<Rightarrow> ucp_address_entry list \<Rightarrow> ucp_wireup_criteria \<Rightarrow> real
     \<Rightarrow> 64 word \<Rightarrow> 64 word \<Rightarrow> ucp_wireup_select_info list \<Rightarrow> bool" where
  "admitted K w al c reg_score tlb m [] \<longleftrightarrow>
     al = [] \<or>
     fst (ucp_wireup_select_transport K w al c tlb m (-1) (-1)) \<noteq> UCS_OK \<or>
     ucp_wireup_score_cmp K
       (score (snd (ucp_wireup_select_transport K w al c tlb m (-1) (-1)))) reg_score \<le> 0"
| "admitted K w al c reg_score tlb m (info # infos) \<longleftrightarrow>
     al \<noteq> [] \<and>
     ucp_wireup_select_transport K w al c tlb m (-1) (-1) = (UCS_OK, info) \<and>
     ucp_wireup_score_cmp K (score info) reg_score > 0 \<and>
     admitted K w al c reg_score
       (ucp_wireup_unset_tl_by_md w tlb (rsc_index info))
       (m AND NOT (UCS_BIT (md_index (al ! addr_index info)))) infos"

lemma admitted_alloc_selections:
  "admitted K w al c reg (fst st) (snd st) (alloc_selections K w al c reg st)"
proof (induction K w al c reg st rule: alloc_selections.induct)
  case (1 K w al c reg tlb m)
  obtain status info where sel:
    "ucp_wireup_select_transport K w al c tlb m (- 1) (- 1) = (status, info)"
    by (cases "ucp_wireup_select_transport K w al c tlb m (- 1) (- 1)") auto
  show ?case
  proof (cases "0 < length al \<and> status = UCS_OK \<and>
                \<not> ucp_wireup_score_cmp K (score info) reg \<le> 0")
    case True
    then have "admitted K w al c reg
       (ucp_wireup_unset_tl_by_md w tlb (rsc_index info))
       (m AND NOT (UCS_BIT (md_index (al ! addr_index info))))
       (alloc_selections K w al c reg
          (ucp_wireup_unset_tl_by_md w tlb (rsc_index info),
           m AND NOT (UCS_BIT (md_index (al ! addr_index info)))))"
      using "1.IH"[OF _ sel[symmetric]] by simp
    then show ?thesis
      using True sel by (subst alloc_selections.simps) (auto simp: not_le)
  next
    case False
    then show ?thesis
      using sel by (subst alloc_selections.simps) auto
  qed
qed

lemma add_lanes_fields:
  "add_lanes K usg infos s = Inr s' \<Longrightarrow> ep s' = ep s \<and> address_list s' = address_list s \<and>
     ep_init_flags s' = ep_init_flags s \<and> allow_am s' = allow_am s \<and> params s' = params s \<and>
     am_info s' = am_info s"
proof (induction infos arbitrary: s)
  case Nil
  then show ?case by simp
next
  case (Cons info infos)
  then obtain s1 where
    s1: "ucp_wireup_add_lane_desc K s info (md_index (address_list s ! addr_index info))
           usg False = Inr s1"
    and rest: "add_lanes K usg infos s1 = Inr s'"
    by (auto split: sum.splits)
  show ?case
    using Cons.IH[OF rest] add_lane_desc_fields[OF s1] by simp
qed

lemma memaccess_loop_add_lanes:
  "memaccess_loop K c reg usg (s, tlb, m) =
     add_lanes K usg (alloc_selections K (ep s) (address_list s) c reg (tlb, m)) s"
proof (induction K c reg usg "(s, tlb, m)" arbitrary: s tlb m rule: memaccess_loop.induct)
  case (1 K c reg usg s tlb m)
  obtain status info where sel:
    "ucp_wireup_select_transport K (ep s) (address_list s) c tlb m (- 1) (- 1) = (status, info)"
    by (cases "ucp_wireup_select_transport K (ep s) (address_list s) c tlb m (- 1) (- 1)") auto
  let ?add = "ucp_wireup_add_lane_desc K s info (md_index (address_list s ! addr_index info))
                usg False"
  show ?case
  proof (cases "0 < address_count s \<and> status = UCS_OK \<and>
                \<not> ucp_wireup_score_cmp K (score info) reg \<le> 0")
    case False
    then show ?thesis
      using sel
      by (subst memaccess_loop.simps, subst alloc_selections.simps)
         (auto simp: address_count_def)
  next
    case True
    show ?thesis
    proof (cases ?add)
      case (Inl a)
      then show ?thesis
        using sel True
        by (subst memaccess_loop.simps, subst alloc_selections.simps)
           (auto simp: address_count_def)
    next
      case (Inr s')
      have f: "ep s' = ep s" "address_list s' = address_list s"
        using add_lane_desc_fields[OF Inr] by simp_all
      have "memaccess_loop K c reg usg
              (s', ucp_wireup_unset_tl_by_md (ep s) tlb (rsc_index info),
               m AND NOT (UCS_BIT (md_index (address_list s ! addr_index info)))) =
            add_lanes K usg
              (alloc_selections K (ep s) (address_list s) c reg
                 (ucp_wireup_unset_tl_by_md (ep s) tlb (rsc_index info),
                  m AND NOT (UCS_BIT (md_index (address_list s ! addr_index info))))) s'"
        using "1.hyps"[OF _ sel[symmetric] _ Inr] True f by simp
      then show ?thesis
        using sel True Inr
        by (subst memaccess_loop.simps, subst alloc_selections.simps)
           (auto simp: address_count_def)
    qed
  qed
qed

text \<open>The pass as a whole, when its first selection succeeds and when it fails.\<close>

lemma add_memaccess_lanes_OK:
  assumes sel: "ucp_wireup_select_transport K (ep s) (address_list s)
             (c\<lparr>remote_md_flags := insert UCT_MD_FLAG_REG (remote_md_flags c)\<rparr>)
             tlb (-1) (-1) (-1) = (UCS_OK, reg)"
  shows "ucp_wireup_add_memaccess_lanes K s c tlb usg =
     (case add_lanes K usg
             (reg # alloc_selections K (ep s) (address_list s)
                      (c\<lparr>remote_md_flags := insert UCT_MD_FLAG_ALLOC (remote_md_flags c)\<rparr>)
                      (score reg)
                      (ucp_wireup_unset_tl_by_md (ep s) tlb (rsc_index reg),
                       (-1) AND NOT (UCS_BIT (md_index (address_list s ! addr_index reg))))) s of
        Inl a \<Rightarrow> Inl a
      | Inr s' \<Rightarrow> Inr (UCS_OK, s'))"
proof (cases "ucp_wireup_add_lane_desc K s reg (md_index (address_list s ! addr_index reg))
                usg False")
  case (Inl a)
  then show ?thesis
    using sel by (simp add: ucp_wireup_add_memaccess_lanes_def Let_def)
next
  case (Inr s1)
  have f: "ep s1 = ep s" "address_list s1 = address_list s"
    using add_lane_desc_fields[OF Inr] by simp_all
  show ?thesis
    using sel Inr f
    by (simp add: ucp_wireup_add_memaccess_lanes_def Let_def memaccess_loop_add_lanes
          memaccess_out_def split: sum.splits)
qed

lemma add_memaccess_lanes_failed:
  assumes "fst (ucp_wireup_select_transport K (ep s) (address_list s)
             (c\<lparr>remote_md_flags := insert UCT_MD_FLAG_REG (remote_md_flags c)\<rparr>)
             tlb (-1) (-1) (-1)) \<noteq> UCS_OK"
  shows "ucp_wireup_add_memaccess_lanes K s c tlb usg =
     (if allow_am s
      then Inr (UCS_OK, s\<lparr>ep_init_flags := insert UCP_EP_CREATE_AM_LANE (ep_init_flags s)\<rparr>)
      else Inr (fst (ucp_wireup_select_transport K (ep s) (address_list s)
             (c\<lparr>remote_md_flags := insert UCT_MD_FLAG_REG (remote_md_flags c)\<rparr>)
             tlb (-1) (-1) (-1)), s))"
  using assms
  by (auto simp: ucp_wireup_add_memaccess_lanes_def memaccess_out_def split: prod.splits)

text \<open>A selection has a lane once it was added, whatever is added afterwards.\<close>

definition lane_present :: "32 word \<Rightarrow> ucp_wireup_select_ctx \<Rightarrow> ucp_wireup_select_info \<Rightarrow> bool" where
  "lane_present usg s info \<longleftrightarrow>
     (\<exists>l<num_lanes s. same_pair info (lane_descs s ! l) \<and>
                      usage (lane_descs s ! l) AND usg = usg)"

lemma lane_present_new:
  assumes "ucp_wireup_add_lane_desc K s info dm usg False = Inr s'"
  shows "lane_present usg s' info"
  using assms
proof (cases rule: add_lane_desc_cases)
  case (merge l)
  have "(usage (lane_descs s ! l) OR usg) AND usg = usg"
    by (auto simp: bit_eq_iff bit_and_iff bit_or_iff)
  then show ?thesis
    using merge unfolding lane_present_def num_lanes_def
    by (intro exI[of _ l]) (simp add: same_pair_def)
next
  case (proxy_to l)
  then show ?thesis by simp
next
  case (append descs')
  then show ?thesis
    unfolding lane_present_def num_lanes_def
    by (intro exI[of _ "length (lane_descs s)"]) (simp add: nth_append)
qed

lemma lane_present_add:
  assumes p: "lane_present usg s info"
    and add: "ucp_wireup_add_lane_desc K s info' dm usg' prx = Inr s'"
  shows "lane_present usg s' info"
proof -
  from p obtain l where l: "l < length (lane_descs s)" "same_pair info (lane_descs s ! l)"
    "usage (lane_descs s ! l) AND usg = usg"
    by (auto simp: lane_present_def num_lanes_def)
  from add show ?thesis
  proof (cases rule: add_lane_desc_cases)
    case (merge l')
    have or: "(usage (lane_descs s ! l) OR usg') AND usg = usg"
      using l(3) by (auto simp: bit_eq_iff bit_and_iff bit_or_iff)
    show ?thesis
    proof (cases "l' = l")
      case True
      then show ?thesis
        using merge l or unfolding lane_present_def num_lanes_def
        by (intro exI[of _ l]) (simp add: same_pair_def)
    next
      case False
      then show ?thesis
        using merge l unfolding lane_present_def num_lanes_def
        by (intro exI[of _ l]) simp
    qed
  next
    case (proxy_to l')
    then show ?thesis
      using l unfolding lane_present_def num_lanes_def
      by (intro exI[of _ l]) (simp add: nth_append)
  next
    case (append descs')
    from append(3) l(1)
    have "descs' ! l = lane_descs s ! l \<or>
          descs' ! l = (lane_descs s ! l)\<lparr>proxy_lane := length (lane_descs s)\<rparr>"
      by blast
    then have "same_pair info (descs' ! l) \<and> usage (descs' ! l) AND usg = usg"
      using l by (auto simp: same_pair_def)
    then show ?thesis
      using append l(1) unfolding lane_present_def num_lanes_def
      by (intro exI[of _ l]) (simp add: nth_append)
  qed
qed

lemma add_lanes_present_mono:
  "add_lanes K usg' infos s = Inr s' \<Longrightarrow> lane_present usg s info \<Longrightarrow> lane_present usg s' info"
proof (induction infos arbitrary: s)
  case Nil
  then show ?case by simp
next
  case (Cons i infos)
  then obtain s1 where
    s1: "ucp_wireup_add_lane_desc K s i (md_index (address_list s ! addr_index i))
           usg' False = Inr s1"
    and rest: "add_lanes K usg' infos s1 = Inr s'"
    by (auto split: sum.splits)
  show ?case
    by (rule Cons.IH[OF rest lane_present_add[OF Cons.prems(2) s1]])
qed

lemma add_lanes_present:
  "add_lanes K usg infos s = Inr s' \<Longrightarrow> info \<in> set infos \<Longrightarrow> lane_present usg s' info"
proof (induction infos arbitrary: s)
  case Nil
  then show ?case by simp
next
  case (Cons i infos)
  then obtain s1 where
    s1: "ucp_wireup_add_lane_desc K s i (md_index (address_list s ! addr_index i))
           usg False = Inr s1"
    and rest: "add_lanes K usg infos s1 = Inr s'"
    by (auto split: sum.splits)
  show ?case
  proof (cases "info = i")
    case True
    then show ?thesis
      using add_lanes_present_mono[OF rest lane_present_new[OF s1]] by simp
  next
    case False
    then show ?thesis using Cons.IH[OF rest] Cons.prems(2) by simp
  qed
qed

subsection \<open>Surviving pairs and the running best of the evaluator\<close>

text \<open>
  The two phases in the words of the specification. A remote entry passes the remote
  filter when its device and memory domain are allowed and its MD flags, interface flags
  and atomic flags contain the required ones. A local resource passes the local scan when
  it is a resource of the context, is allowed by the transport and device bitmaps, is not
  auxiliary-only unless the criteria opt in, and its MD, interface and atomic flags
  contain the required ones. A pair survives when both pass and the resource reaches
  the entry. The bitmaps are tested at the index modulo 64, as \<open>UCS_BIT\<close> does.
\<close>

definition passes_remote_filter ::
  "ucp_wireup_criteria \<Rightarrow> 64 word \<Rightarrow> 64 word \<Rightarrow> ucp_address_entry \<Rightarrow> bool" where
  "passes_remote_filter criteria remote_md_map remote_dev_bitmap ae \<longleftrightarrow>
     bit remote_dev_bitmap (dev_index ae mod 64) \<and> bit remote_md_map (md_index ae mod 64) \<and>
     remote_md_flags criteria \<subseteq> md_flags ae \<and>
     remote_iface_flags criteria \<subseteq> cap_flags (iface_attr ae) \<and>
     atomic32_op_flags (atomic (iface_attr ae)) AND atomic32_op_flags (remote_atomic_flags criteria)
       = atomic32_op_flags (remote_atomic_flags criteria) \<and>
     atomic64_op_flags (atomic (iface_attr ae)) AND atomic64_op_flags (remote_atomic_flags criteria)
       = atomic64_op_flags (remote_atomic_flags criteria) \<and>
     atomic32_fop_flags (atomic (iface_attr ae)) AND atomic32_fop_flags (remote_atomic_flags criteria)
       = atomic32_fop_flags (remote_atomic_flags criteria) \<and>
     atomic64_fop_flags (atomic (iface_attr ae)) AND atomic64_fop_flags (remote_atomic_flags criteria)
       = atomic64_fop_flags (remote_atomic_flags criteria)"

definition passes_local_scan ::
  "ucp_worker \<Rightarrow> ucp_wireup_criteria \<Rightarrow> 64 word \<Rightarrow> 64 word \<Rightarrow> nat \<Rightarrow> bool" where
  "passes_local_scan worker criteria tl_bitmap' local_dev_bitmap r \<longleftrightarrow>
     bit (tl_bitmap (wcontext worker)) r \<and> bit tl_bitmap' r \<and>
     bit local_dev_bitmap (rsc_dev_index (tl_rscs (wcontext worker) ! r) mod 64) \<and>
     (UCP_TL_RSC_FLAG_AUX \<in> tl_rsc_flags criteria \<or>
      UCP_TL_RSC_FLAG_AUX \<notin> rsc_flags (tl_rscs (wcontext worker) ! r)) \<and>
     local_md_flags criteria \<subseteq>
       md_cap_flags (tl_mds (wcontext worker) ! rsc_md_index (tl_rscs (wcontext worker) ! r)) \<and>
     local_iface_flags criteria \<subseteq> if_cap_flags (ifaces worker ! r) \<and>
     atomic32_op_flags (if_cap_atomic (ifaces worker ! r)) AND
       atomic32_op_flags (local_atomic_flags criteria)
       = atomic32_op_flags (local_atomic_flags criteria) \<and>
     atomic64_op_flags (if_cap_atomic (ifaces worker ! r)) AND
       atomic64_op_flags (local_atomic_flags criteria)
       = atomic64_op_flags (local_atomic_flags criteria) \<and>
     atomic32_fop_flags (if_cap_atomic (ifaces worker ! r)) AND
       atomic32_fop_flags (local_atomic_flags criteria)
       = atomic32_fop_flags (local_atomic_flags criteria) \<and>
     atomic64_fop_flags (if_cap_atomic (ifaces worker ! r)) AND
       atomic64_fop_flags (local_atomic_flags criteria)
       = atomic64_fop_flags (local_atomic_flags criteria)"

definition surviving_pair ::
  "ucp_worker \<Rightarrow> ucp_address_entry list \<Rightarrow> ucp_wireup_criteria \<Rightarrow> 64 word \<Rightarrow> 64 word
     \<Rightarrow> 64 word \<Rightarrow> 64 word \<Rightarrow> nat \<Rightarrow> nat \<Rightarrow> bool" where
  "surviving_pair worker al criteria tl_bitmap' remote_md_map local_dev_bitmap
       remote_dev_bitmap r i \<longleftrightarrow>
     i < length al \<and>
     passes_remote_filter criteria remote_md_map remote_dev_bitmap (al ! i) \<and>
     passes_local_scan worker criteria tl_bitmap' local_dev_bitmap r \<and>
     is_reachable worker r (al ! i)"

lemma remote_addr_ok_iff:
  "remote_addr_ok c md rd ae \<longleftrightarrow> passes_remote_filter c md rd ae"
  by (auto simp: remote_addr_ok_def passes_remote_filter_def UCS_BIT_test
        ucs_test_all_flags_def)

lemma local_rsc_ok_iff:
  "bit (tl_bitmap (wcontext w)) r \<and> local_rsc_ok w c tlb ld r \<longleftrightarrow> passes_local_scan w c tlb ld r"
proof -
  have "bit (tl_bitmap (wcontext w)) r \<Longrightarrow> r mod 64 = r"
    using bit64_lt[of "tl_bitmap (wcontext w)" r] by simp
  then show ?thesis
    by (auto simp: local_rsc_ok_def passes_local_scan_def UCS_BIT_test Let_def
          ucs_test_all_flags_def ucp_worker_iface_get_attr_def)
qed

lemma pair_considered_iff:
  assumes "length al \<le> 64"
  shows "pair_considered w al c tlb md ld rd r i \<longleftrightarrow> surviving_pair w al c tlb md ld rd r i"
proof -
  have "(\<exists>j<length al. j mod 64 = i mod 64 \<and> remote_addr_ok c md rd (al ! j)) \<longleftrightarrow>
        remote_addr_ok c md rd (al ! i)" if "i < length al"
  proof
    assume "\<exists>j<length al. j mod 64 = i mod 64 \<and> remote_addr_ok c md rd (al ! j)"
    then obtain j where j: "j < length al" "j mod 64 = i mod 64" "remote_addr_ok c md rd (al ! j)"
      by blast
    then have "j = i" using assms that by simp
    with j show "remote_addr_ok c md rd (al ! i)" by simp
  next
    assume "remote_addr_ok c md rd (al ! i)"
    then show "\<exists>j<length al. j mod 64 = i mod 64 \<and> remote_addr_ok c md rd (al ! j)"
      using that by blast
  qed
  then show ?thesis
    unfolding pair_considered_def surviving_pair_def
    using remote_addr_ok_iff[of c md rd "al ! i"] local_rsc_ok_iff[of w r c tlb ld]
    by blast
qed

text \<open>
  The order of the scan: the resources of the context by ascending index, and for each
  the remote entries by ascending index. The surviving pairs in that order.
\<close>

definition scan_order :: "ucp_worker \<Rightarrow> ucp_address_entry list \<Rightarrow> (nat \<times> nat) list" where
  "scan_order w al =
     concat (map (\<lambda>r. map (Pair r) [0..<length al])
               (filter (bit (tl_bitmap (wcontext w))) [0..<64]))"

definition surviving_pairs ::
  "ucp_worker \<Rightarrow> ucp_address_entry list \<Rightarrow> ucp_wireup_criteria \<Rightarrow> 64 word \<Rightarrow> 64 word
     \<Rightarrow> 64 word \<Rightarrow> 64 word \<Rightarrow> (nat \<times> nat) list" where
  "surviving_pairs w al c tlb md ld rd =
     filter (\<lambda>p. surviving_pair w al c tlb md ld rd (fst p) (snd p)) (scan_order w al)"

lemma set_surviving_pairs:
  "set (surviving_pairs w al c tlb md ld rd) = {(r, i). surviving_pair w al c tlb md ld rd r i}"
proof -
  have "(r, i) \<in> set (scan_order w al)" if "surviving_pair w al c tlb md ld rd r i" for r i
  proof -
    from that have "bit (tl_bitmap (wcontext w)) r" "i < length al"
      by (simp_all add: surviving_pair_def passes_local_scan_def)
    then show ?thesis
      using bit64_lt[of "tl_bitmap (wcontext w)" r] by (auto simp: scan_order_def)
  qed
  then show ?thesis by (auto simp: surviving_pairs_def)
qed

text \<open>
  The comparison of the inner loop in the words of the specification: the priority of a
  pair is the sum of the local and the remote priority, kept in eight bits; a pair beats
  another when its score compares greater, or compares equal and its priority is greater.
  The running best of a sequence of pairs starts with the first and moves on to every
  pair that beats the current one.
\<close>

definition priority_sum :: "ucp_worker \<Rightarrow> nat \<Rightarrow> ucp_address_entry \<Rightarrow> int" where
  "priority_sum w r ae = (uint (if_priority (ifaces w ! r)) + priority (iface_attr ae)) mod 256"

definition beats ::
  "ucp_constants \<Rightarrow> ucp_worker \<Rightarrow> ucp_wireup_criteria \<Rightarrow> ucp_address_entry list
     \<Rightarrow> nat \<times> nat \<Rightarrow> nat \<times> nat \<Rightarrow> bool" where
  "beats K w c al q p \<longleftrightarrow>
     ucp_wireup_score_cmp K (pair_score w c (fst q) (al ! snd q))
                            (pair_score w c (fst p) (al ! snd p)) > 0 \<or>
     (ucp_wireup_score_cmp K (pair_score w c (fst q) (al ! snd q))
                             (pair_score w c (fst p) (al ! snd p)) = 0 \<and>
      priority_sum w (fst q) (al ! snd q) > priority_sum w (fst p) (al ! snd p))"

fun running_best ::
  "ucp_constants \<Rightarrow> ucp_worker \<Rightarrow> ucp_wireup_criteria \<Rightarrow> ucp_address_entry list
     \<Rightarrow> nat \<times> nat \<Rightarrow> (nat \<times> nat) list \<Rightarrow> nat \<times> nat" where
  "running_best K w c al p [] = p"
| "running_best K w c al p (q # qs) =
     running_best K w c al (if beats K w c al q p then q else p) qs"

text \<open>The scan of the evaluator computes the running best.\<close>

lemma uint_pair_priority: "uint (pair_priority w r ae) = priority_sum w r ae"
  unfolding pair_priority_def priority_sum_def ucp_worker_iface_get_attr_def
    uint_word_of_int_eq take_bit_eq_mod
  by simp

lemma pair_priority_less:
  "pair_priority w r ae < pair_priority w r' ae' \<longleftrightarrow> priority_sum w r ae < priority_sum w r' ae'"
  by (simp only: word_less_def uint_pair_priority)

fun best_step ::
  "ucp_constants \<Rightarrow> ucp_worker \<Rightarrow> ucp_wireup_criteria \<Rightarrow> ucp_address_entry list
     \<Rightarrow> (nat \<times> nat) option \<Rightarrow> nat \<times> nat \<Rightarrow> (nat \<times> nat) option" where
  "best_step K w c al None q = Some q"
| "best_step K w c al (Some p) q = Some (if beats K w c al q p then q else p)"

definition best_of :: "select_best \<Rightarrow> (nat \<times> nat) option" where
  "best_of b = (if found b then Some (best_rsc_index b, best_dst_addr_index b) else None)"

definition best_consistent ::
  "ucp_worker \<Rightarrow> ucp_wireup_criteria \<Rightarrow> ucp_address_entry list \<Rightarrow> select_best \<Rightarrow> bool" where
  "best_consistent w c al b \<longleftrightarrow>
     (found b \<longrightarrow>
        best_score b = pair_score w c (best_rsc_index b) (al ! best_dst_addr_index b) \<and>
        best_score_priority b = pair_priority w (best_rsc_index b) (al ! best_dst_addr_index b))"

lemma addr_scan_loop_running:
  assumes "best_consistent w c al b"
  shows "best_consistent w c al (addr_scan_loop K w c al m r is b) \<and>
         best_of (addr_scan_loop K w c al m r is b) =
           foldl (best_step K w c al) (best_of b)
             (filter (\<lambda>p. bit m (snd p mod 64) \<and> is_reachable w r (al ! snd p))
                (map (Pair r) is))"
  using assms
proof (induction "is" arbitrary: b)
  case Nil
  then show ?case by simp
next
  case (Cons i rest)
  let ?cand = "bit m (i mod 64) \<and> is_reachable w r (al ! i)"
  let ?s = "pair_score w c r (al ! i)"
  let ?p = "pair_priority w r (al ! i)"
  let ?new = "\<lparr>found = True, best_score = ?s, best_rsc_index = r,
               best_dst_addr_index = i, best_score_priority = ?p\<rparr>"
  let ?repl = "\<not> found b \<or> ucp_wireup_score_cmp K ?s (best_score b) > 0 \<or>
               (ucp_wireup_score_cmp K ?s (best_score b) = 0 \<and> ?p > best_score_priority b)"
  show ?case
  proof (cases ?cand)
    case False
    then have "m AND UCS_BIT i = 0 \<or> \<not> is_reachable w r (al ! i)"
      by (simp add: UCS_BIT_test)
    then have "addr_scan_loop K w c al m r (i # rest) b = addr_scan_loop K w c al m r rest b"
      by (simp only: addr_scan_loop.simps if_True)
    then show ?thesis using Cons.IH[OF Cons.prems] False by auto
  next
    case True
    define b1 where "b1 = (if ?repl then ?new else b)"
    have step: "addr_scan_loop K w c al m r (i # rest) b = addr_scan_loop K w c al m r rest b1"
      unfolding b1_def using True by (simp add: UCS_BIT_test Let_def)
    have cons1: "best_consistent w c al b1"
      unfolding b1_def using Cons.prems by (simp add: best_consistent_def)
    have abs1: "best_of b1 = best_step K w c al (best_of b) (r, i)"
    proof (cases "found b")
      case False
      then show ?thesis unfolding b1_def by (simp add: best_of_def)
    next
      case f: True
      with Cons.prems have sc: "best_score b =
            pair_score w c (best_rsc_index b) (al ! best_dst_addr_index b)"
        and pr: "best_score_priority b =
            pair_priority w (best_rsc_index b) (al ! best_dst_addr_index b)"
        by (simp_all add: best_consistent_def)
      have "?repl \<longleftrightarrow> beats K w c al (r, i) (best_rsc_index b, best_dst_addr_index b)"
        using f by (simp add: beats_def sc pr pair_priority_less)
      then show ?thesis unfolding b1_def using f by (simp add: best_of_def)
    qed
    have filt: "filter (\<lambda>p. bit m (snd p mod 64) \<and> is_reachable w r (al ! snd p))
                  (map (Pair r) (i # rest)) =
                (r, i) # filter (\<lambda>p. bit m (snd p mod 64) \<and> is_reachable w r (al ! snd p))
                           (map (Pair r) rest)"
      using True by simp
    show ?thesis
      using Cons.IH[OF cons1] by (simp only: step filt foldl_Cons abs1)
  qed
qed

lemma rsc_scan_loop_running:
  assumes "best_consistent w c al b"
  shows "best_consistent w c al (rsc_scan_loop K w c al m tlb ld rs b) \<and>
         best_of (rsc_scan_loop K w c al m tlb ld rs b) =
           foldl (best_step K w c al) (best_of b)
             (filter (\<lambda>p. local_rsc_ok w c tlb ld (fst p) \<and> bit m (snd p mod 64) \<and>
                           is_reachable w (fst p) (al ! snd p))
                (concat (map (\<lambda>r. map (Pair r) [0..<length al]) rs)))"
  using assms
proof (induction rs arbitrary: b)
  case Nil
  then show ?case by simp
next
  case (Cons r rest)
  let ?P = "\<lambda>p. local_rsc_ok w c tlb ld (fst p) \<and> bit m (snd p mod 64) \<and>
                 is_reachable w (fst p) (al ! snd p)"
  show ?case
  proof (cases "local_rsc_ok w c tlb ld r")
    case False
    then have "filter ?P (map (Pair r) [0..<length al]) = []"
      by (simp add: filter_empty_conv)
    then show ?thesis using Cons.IH[OF Cons.prems] False by simp
  next
    case True
    let ?b1 = "addr_scan_loop K w c al m r [0..<length al] b"
    have eq: "filter ?P (map (Pair r) [0..<length al]) =
              filter (\<lambda>p. bit m (snd p mod 64) \<and> is_reachable w r (al ! snd p))
                (map (Pair r) [0..<length al])"
      using True by (intro filter_cong) auto
    from addr_scan_loop_running[OF Cons.prems, of K m r "[0..<length al]"]
    have c1: "best_consistent w c al ?b1"
      and a1: "best_of ?b1 = foldl (best_step K w c al) (best_of b)
                 (filter ?P (map (Pair r) [0..<length al]))"
      by (simp_all only: eq)
    show ?thesis
      using Cons.IH[OF c1] True by (simp add: a1)
  qed
qed

lemma addr_scan_loop_not_found:
  "\<not> found (addr_scan_loop K w c al m r is b) \<Longrightarrow> addr_scan_loop K w c al m r is b = b"
proof (induction "is" arbitrary: b)
  case Nil
  then show ?case by simp
next
  case (Cons i rest)
  define b1 where "b1 =
       (if m AND UCS_BIT i = 0 \<or> \<not> is_reachable w r (al ! i)
        then b
        else let s = pair_score w c r (al ! i);
                 p = pair_priority w r (al ! i)
             in if \<not> found b \<or>
                   ucp_wireup_score_cmp K s (best_score b) > 0 \<or>
                   (ucp_wireup_score_cmp K s (best_score b) = 0 \<and>
                    p > best_score_priority b)
                then \<lparr>found = True, best_score = s, best_rsc_index = r,
                      best_dst_addr_index = i, best_score_priority = p\<rparr>
                else b)"
  have step: "addr_scan_loop K w c al m r (i # rest) b = addr_scan_loop K w c al m r rest b1"
    unfolding b1_def by simp
  with Cons.prems have nf: "\<not> found (addr_scan_loop K w c al m r rest b1)" by simp
  from Cons.IH[OF nf] nf have "\<not> found b1" and eq: "addr_scan_loop K w c al m r rest b1 = b1"
    by simp_all
  then have "b1 = b" unfolding b1_def by (auto simp: Let_def split: if_splits)
  with step eq show ?case by simp
qed

lemma rsc_scan_loop_not_found:
  "\<not> found (rsc_scan_loop K w c al m tlb ld rs b) \<Longrightarrow>
     rsc_scan_loop K w c al m tlb ld rs b = b"
proof (induction rs arbitrary: b)
  case Nil
  then show ?case by simp
next
  case (Cons r rest)
  define b1 where "b1 = (if local_rsc_ok w c tlb ld r
        then addr_scan_loop K w c al m r [0..<length al] b else b)"
  have step: "rsc_scan_loop K w c al m tlb ld (r # rest) b =
              rsc_scan_loop K w c al m tlb ld rest b1"
    unfolding b1_def by simp
  with Cons.prems have nf: "\<not> found (rsc_scan_loop K w c al m tlb ld rest b1)" by simp
  from Cons.IH[OF nf] nf have nf1: "\<not> found b1"
    and eq: "rsc_scan_loop K w c al m tlb ld rest b1 = b1"
    by simp_all
  have "b1 = b"
  proof (cases "local_rsc_ok w c tlb ld r")
    case True
    with nf1 have "\<not> found (addr_scan_loop K w c al m r [0..<length al] b)"
      by (simp add: b1_def)
    from addr_scan_loop_not_found[OF this] True show ?thesis by (simp add: b1_def)
  next
    case False
    then show ?thesis by (simp add: b1_def)
  qed
  with step eq show ?case by simp
qed

lemma foldl_best_step:
  "foldl (best_step K w c al) (Some p) qs = Some (running_best K w c al p qs)"
  by (induction qs arbitrary: p) simp_all

lemma select_transport_running_best:
  assumes len: "length al \<le> 64"
  shows "ucp_wireup_select_transport K w al c tlb md ld rd =
     (case surviving_pairs w al c tlb md ld rd of
        [] \<Rightarrow> (UCS_ERR_UNREACHABLE, \<lparr>score = 0, addr_index = 0, rsc_index = 0\<rparr>)
      | p # ps \<Rightarrow>
          (UCS_OK, \<lparr>score = pair_score w c (fst (running_best K w c al p ps))
                              (al ! snd (running_best K w c al p ps)),
                    addr_index = snd (running_best K w c al p ps),
                    rsc_index = fst (running_best K w c al p ps)\<rparr>))"
proof -
  let ?m = "addr_index_map_loop c md rd al [0..<length al] 0"
  let ?rs = "ucs_for_each_bit (tl_bitmap (wcontext w))"
  let ?b = "rsc_scan_loop K w c al ?m tlb ld ?rs select_best_init"
  let ?P = "\<lambda>p. local_rsc_ok w c tlb ld (fst p) \<and> bit ?m (snd p mod 64) \<and>
                 is_reachable w (fst p) (al ! snd p)"
  note m = bit_addr_index_map[of c md rd al]
  have init: "best_consistent w c al select_best_init" "best_of select_best_init = None"
    by (simp_all add: best_consistent_def best_of_def select_best_init_def)
  have filt: "filter ?P (scan_order w al) = surviving_pairs w al c tlb md ld rd"
    unfolding surviving_pairs_def
  proof (rule filter_cong[OF refl])
    fix p assume "p \<in> set (scan_order w al)"
    then have r: "bit (tl_bitmap (wcontext w)) (fst p)" and i: "snd p < length al"
      by (auto simp: scan_order_def)
    from i len have "bit ?m (snd p mod 64) \<longleftrightarrow> remote_addr_ok c md rd (al ! snd p)"
      by (auto simp: m)
    then show "?P p \<longleftrightarrow> surviving_pair w al c tlb md ld rd (fst p) (snd p)"
      using pair_considered_iff[OF len, of w c tlb md ld rd "fst p" "snd p", symmetric] r i len
      by (auto simp: pair_considered_def)
  qed
  from rsc_scan_loop_running[OF init(1), of K ?m tlb ld ?rs]
  have cons: "best_consistent w c al ?b"
    and abs: "best_of ?b = foldl (best_step K w c al) None (surviving_pairs w al c tlb md ld rd)"
    by (simp_all add: init(2) filt[symmetric] scan_order_def ucs_for_each_bit_def)
  show ?thesis
  proof (cases "surviving_pairs w al c tlb md ld rd")
    case Nil
    then have nf: "\<not> found ?b" using abs by (simp add: best_of_def split: if_splits)
    from rsc_scan_loop_not_found[OF nf] have "?b = select_best_init" .
    then show ?thesis
      using Nil by (simp add: ucp_wireup_select_transport_def Let_def select_best_init_def)
  next
    case (Cons p ps)
    then have bo: "best_of ?b = Some (running_best K w c al p ps)"
      using abs by (simp add: foldl_best_step)
    then have f: "found ?b"
      and bp: "(best_rsc_index ?b, best_dst_addr_index ?b) = running_best K w c al p ps"
      by (auto simp: best_of_def split: if_splits)
    from f cons have sc: "best_score ?b =
        pair_score w c (best_rsc_index ?b) (al ! best_dst_addr_index ?b)"
      by (simp add: best_consistent_def)
    have nz: "?m \<noteq> 0"
    proof
      assume z: "?m = 0"
      have "p \<in> set (surviving_pairs w al c tlb md ld rd)" using Cons by simp
      then have "surviving_pair w al c tlb md ld rd (fst p) (snd p)"
        by (auto simp: set_surviving_pairs)
      then have "pair_considered w al c tlb md ld rd (fst p) (snd p)"
        by (simp add: pair_considered_iff[OF len])
      then have "bit ?m (snd p mod 64)"
        by (auto simp: pair_considered_def m)
      with z show False by simp
    qed
    have fs: "fst (running_best K w c al p ps) = best_rsc_index ?b"
      "snd (running_best K w c al p ps) = best_dst_addr_index ?b"
      using bp[symmetric] by simp_all
    show ?thesis
      using Cons nz f sc
      by (simp add: ucp_wireup_select_transport_def Let_def fs)
  qed
qed

text \<open>
  Scores are real numbers in the model. A score function of select.c divides by a sum of
  latencies, overheads and message sizes over bandwidths; in C a zero divisor gives an
  infinite score, which the real numbers do not have. The divisors are positive when
  the latencies, overheads and registration costs are not negative and the local overheads
  and the bandwidths are positive.
\<close>

definition positive_attrs :: "ucp_worker \<Rightarrow> ucp_address_entry list \<Rightarrow> bool" where
  "positive_attrs w al \<longleftrightarrow>
     (\<forall>ifattr\<in>set (ifaces w).
        0 \<le> if_latency_overhead ifattr \<and> 0 \<le> if_latency_growth ifattr \<and>
        0 < if_overhead ifattr \<and>
        0 < tl_iface_bandwidth (wcontext w) (if_bandwidth ifattr)) \<and>
     (\<forall>ae\<in>set al.
        0 \<le> lat_ovh (iface_attr ae) \<and> 0 \<le> overhead (iface_attr ae) \<and>
        0 < tl_iface_bandwidth (wcontext w) (bandwidth (iface_attr ae))) \<and>
     (\<forall>mdattr\<in>set (tl_mds (wcontext w)).
        0 \<le> reg_cost_overhead mdattr \<and> 0 \<le> reg_cost_growth mdattr)"

lemma positive_attrs_divisors:
  assumes "positive_attrs w al" "ifattr \<in> set (ifaces w)" "ae \<in> set al"
    "mdattr \<in> set (tl_mds (wcontext w))"
  shows "0 < ucp_wireup_rma_score_func (wcontext w) mdattr ifattr (iface_attr ae)"
    "0 < ucp_wireup_amo_score_func (wcontext w) mdattr ifattr (iface_attr ae)"
    "0 < ucp_wireup_am_score_func (wcontext w) mdattr ifattr (iface_attr ae)"
    "0 < ucp_wireup_aux_score_func (wcontext w) mdattr ifattr (iface_attr ae)"
    "0 < ucp_wireup_rma_bw_score_func (wcontext w) mdattr ifattr (iface_attr ae)"
    "0 < real (if_cap_am_max_bcopy ifattr) \<Longrightarrow>
       0 < ucp_wireup_am_bw_score_func (wcontext w) mdattr ifattr (iface_attr ae)"
proof -
  from assms have l: "0 \<le> if_latency_overhead ifattr" "0 \<le> if_latency_growth ifattr"
    "0 < if_overhead ifattr" "0 < tl_iface_bandwidth (wcontext w) (if_bandwidth ifattr)"
    and r: "0 \<le> lat_ovh (iface_attr ae)" "0 \<le> overhead (iface_attr ae)"
    "0 < tl_iface_bandwidth (wcontext w) (bandwidth (iface_attr ae))"
    and m: "0 \<le> reg_cost_overhead mdattr" "0 \<le> reg_cost_growth mdattr"
    by (auto simp: positive_attrs_def)
  have lat: "0 \<le> ucp_wireup_tl_iface_latency (wcontext w) ifattr (iface_attr ae)"
    using l r by (simp add: ucp_wireup_tl_iface_latency_def)
  have bw: "0 < min (tl_iface_bandwidth (wcontext w) (if_bandwidth ifattr))
                    (tl_iface_bandwidth (wcontext w) (bandwidth (iface_attr ae)))"
    using l r by simp
  show "0 < ucp_wireup_rma_score_func (wcontext w) mdattr ifattr (iface_attr ae)"
    unfolding ucp_wireup_rma_score_func_def using lat bw l
    by (intro divide_pos_pos add_pos_nonneg add_nonneg_pos divide_nonneg_pos) simp_all
  show "0 < ucp_wireup_amo_score_func (wcontext w) mdattr ifattr (iface_attr ae)"
    unfolding ucp_wireup_amo_score_func_def using lat l
    by (intro divide_pos_pos add_nonneg_pos) simp_all
  show "0 < ucp_wireup_am_score_func (wcontext w) mdattr ifattr (iface_attr ae)"
    unfolding ucp_wireup_am_score_func_def using lat l r
    by (intro divide_pos_pos add_pos_nonneg add_nonneg_pos) simp_all
  show "0 < ucp_wireup_aux_score_func (wcontext w) mdattr ifattr (iface_attr ae)"
    unfolding ucp_wireup_aux_score_func_def using lat l r
    by (intro divide_pos_pos add_pos_nonneg add_nonneg_pos) simp_all
  show "0 < ucp_wireup_rma_bw_score_func (wcontext w) mdattr ifattr (iface_attr ae)"
    unfolding ucp_wireup_rma_bw_score_func_def UCP_WIREUP_RMA_BW_TEST_MSG_SIZE_def
    using lat bw l m
    by (intro divide_pos_pos add_pos_nonneg add_nonneg_pos divide_nonneg_pos mult_nonneg_nonneg)
       simp_all
  show "0 < ucp_wireup_am_bw_score_func (wcontext w) mdattr ifattr (iface_attr ae)"
    if "0 < real (if_cap_am_max_bcopy ifattr)"
    unfolding ucp_wireup_am_bw_score_func_def Let_def using lat bw l r that
    by (intro mult_pos_pos divide_pos_pos add_pos_nonneg add_nonneg_pos divide_nonneg_pos)
       simp_all
qed

subsection \<open>The selection of the AM lane, as the TAG pass finds it\<close>






section \<open>Concrete inputs\<close>

text \<open>
  Sample values of the constants, and a family of small configurations: \<open>n\<close> local
  network resources on one memory domain, resource \<open>r\<close> on device \<open>r\<close>, none of them
  peer-to-peer, each reaching exactly the remote address entries on the device of its own
  index.
\<close>

definition ex_K :: ucp_constants where
  "ex_K = \<lparr>UCP_MAX_LANES = 6, UCP_NULL_LANE = 6, UCP_MAX_OP_MDS = 4,
           score_epsilon = 1 / 1000000\<rparr>"

definition ex_bw :: uct_ppn_bandwidth where
  "ex_bw = \<lparr>dedicated = 1000, shared = 0\<rparr>"

definition ex_iface :: "uct_iface_flag set \<Rightarrow> uct_iface_attr" where
  "ex_iface caps = \<lparr>if_cap_flags = caps, if_cap_atomic = atomic_flags_zero,
     if_cap_am_max_bcopy = 8192, if_latency_overhead = 1, if_latency_growth = 0,
     if_bandwidth = ex_bw, if_overhead = 1, if_priority = 0\<rparr>"

definition ex_rsc :: "nat \<Rightarrow> ucp_tl_resource_desc" where
  "ex_rsc dev = \<lparr>tl_name = ''tcp'', dev_type = UCT_DEVICE_TYPE_NET, rsc_md_index = 0,
                 rsc_dev_index = dev, rsc_flags = {}\<rparr>"

definition ex_md :: uct_md_attr where
  "ex_md = \<lparr>md_cap_flags = {UCT_MD_FLAG_REG}, reg_cost_overhead = 0, reg_cost_growth = 0\<rparr>"

definition ex_context :: "ucp_feature set \<Rightarrow> nat \<Rightarrow> nat \<Rightarrow> ucp_context" where
  "ex_context features max_eager n =
     \<lparr>tl_bitmap = mask n, tl_rscs = map ex_rsc [0..<n], tl_mds = [ex_md],
      mem_type_access_tls = [mask n], config_features = features, config_est_num_eps = 1,
      config_max_eager_lanes = max_eager, config_max_rndv_lanes = 1,
      atomic_iface_flags = atomic_flags_zero,
      tl_iface_bandwidth = (\<lambda>bw. dedicated bw + shared bw)\<rparr>"

definition ex_worker ::
  "ucp_feature set \<Rightarrow> nat \<Rightarrow> uct_iface_flag set \<Rightarrow> nat \<Rightarrow> ucp_worker" where
  "ex_worker features max_eager caps n =
     \<lparr>wcontext = ex_context features max_eager n, ifaces = replicate n (ex_iface caps),
      atomic_tls = 0, is_tl_p2p = (\<lambda>r. False),
      is_reachable = (\<lambda>r ae. dev_index ae = r)\<rparr>"

definition ex_addr :: "uct_iface_flag set \<Rightarrow> nat \<Rightarrow> ucp_address_entry" where
  "ex_addr caps dev =
     \<lparr>iface_attr = \<lparr>cap_flags = caps, overhead = 1, bandwidth = ex_bw, priority = 0,
                     lat_ovh = 1, atomic = atomic_flags_zero\<rparr>,
      md_flags = {UCT_MD_FLAG_REG}, tl_name_csum = 0, md_index = 0, dev_index = dev\<rparr>"

definition ex_params :: ucp_ep_params where
  "ex_params = \<lparr>field_mask = {}, err_mode = UCP_ERR_HANDLING_MODE_NONE\<rparr>"

definition ex_stack :: "real \<Rightarrow> ucp_wireup_select_info" where
  "ex_stack g = \<lparr>score = g, addr_index = 0, rsc_index = 0\<rparr>"

text \<open>A key as the caller resets it: every lane slot holds the sentinel.\<close>

definition ex_key :: ucp_ep_config_key where
  "ex_key = \<lparr>key_num_lanes = 0,
     lanes = [\<lparr>kl_rsc_index = 0, kl_proxy_lane = 6, kl_dst_md_index = 0\<rparr>,
              \<lparr>kl_rsc_index = 0, kl_proxy_lane = 6, kl_dst_md_index = 0\<rparr>,
              \<lparr>kl_rsc_index = 0, kl_proxy_lane = 6, kl_dst_md_index = 0\<rparr>,
              \<lparr>kl_rsc_index = 0, kl_proxy_lane = 6, kl_dst_md_index = 0\<rparr>,
              \<lparr>kl_rsc_index = 0, kl_proxy_lane = 6, kl_dst_md_index = 0\<rparr>,
              \<lparr>kl_rsc_index = 0, kl_proxy_lane = 6, kl_dst_md_index = 0\<rparr>],
     am_lane = 6, tag_lane = 6, wireup_lane = 6,
     am_bw_lanes = [6, 6, 6, 6, 6, 6], rma_lanes = [6, 6, 6, 6, 6, 6],
     rma_bw_lanes = [6, 6, 6, 6, 6, 6], amo_lanes = [6, 6, 6, 6, 6, 6],
     rma_bw_md_map = 0, key_err_mode = UCP_ERR_HANDLING_MODE_NONE\<rparr>"

definition ex_addr_indices :: "nat list" where
  "ex_addr_indices = [0, 0, 0, 0, 0, 0]"

definition ex_rma_am_caps :: "uct_iface_flag set" where
  "ex_rma_am_caps = {UCT_IFACE_FLAG_AM_BCOPY, UCT_IFACE_FLAG_PUT_SHORT,
     UCT_IFACE_FLAG_PUT_BCOPY, UCT_IFACE_FLAG_GET_BCOPY, UCT_IFACE_FLAG_PENDING,
     UCT_IFACE_FLAG_CB_SYNC}"

definition ex_tag_caps :: "uct_iface_flag set" where
  "ex_tag_caps = {UCT_IFACE_FLAG_PUT_SHORT, UCT_IFACE_FLAG_TAG_EAGER_BCOPY,
     UCT_IFACE_FLAG_TAG_RNDV_ZCOPY, UCT_IFACE_FLAG_GET_ZCOPY, UCT_IFACE_FLAG_PENDING}"

text \<open>Scenario A: RMA and AM on the same pair, merged into one lane.\<close>
definition ex_merge_ctx :: ucp_wireup_select_ctx where
  "ex_merge_ctx = ucp_wireup_select_ctx_init (ex_stack 0)
     (ex_worker {UCP_FEATURE_RMA, UCP_FEATURE_AM} 1 ex_rma_am_caps 1) ex_params {}
     [ex_addr ex_rma_am_caps 0]"

text \<open>Scenario B: the remote side wakes up on signaled events only, so the AM lane is a proxy.\<close>
definition ex_proxy_ctx :: ucp_wireup_select_ctx where
  "ex_proxy_ctx = ucp_wireup_select_ctx_init (ex_stack 0)
     (ex_worker {UCP_FEATURE_RMA, UCP_FEATURE_AM} 1 ex_rma_am_caps 1) ex_params {}
     [ex_addr (insert UCT_IFACE_FLAG_EVENT_RECV_SIG ex_rma_am_caps) 0]"

definition ex_rails_ctx :: "nat \<Rightarrow> ucp_wireup_select_ctx" where
  "ex_rails_ctx n = ucp_wireup_select_ctx_init (ex_stack 0)
     (ex_worker {UCP_FEATURE_TAG} n ex_rma_am_caps n) ex_params {}
     (map (ex_addr ex_rma_am_caps) [0..<n])"


text \<open>
  Scenario C: three resources, the first on local MD 0 and the other two on local MD 1;
  the remote entry 0 has registered memory, the entries 1 and 2 have allocated memory on
  MDs of their own; resource 1 has the lowest overhead.
\<close>

definition ex_alloc_worker :: ucp_worker where
  "ex_alloc_worker =
     \<lparr>wcontext = (ex_context {UCP_FEATURE_RMA} 1 3)
         \<lparr>tl_rscs := [ex_rsc 0, (ex_rsc 1)\<lparr>rsc_md_index := 1\<rparr>,
                      (ex_rsc 2)\<lparr>rsc_md_index := 1\<rparr>],
          tl_mds := [ex_md, ex_md]\<rparr>,
      ifaces = [ex_iface ex_rma_am_caps, (ex_iface ex_rma_am_caps)\<lparr>if_overhead := 0\<rparr>,
                (ex_iface ex_rma_am_caps)\<lparr>if_overhead := 1 / 2\<rparr>],
      atomic_tls = 0, is_tl_p2p = (\<lambda>r. False),
      is_reachable = (\<lambda>r ae. dev_index ae = r)\<rparr>"

definition ex_alloc_al :: "ucp_address_entry list" where
  "ex_alloc_al =
     [ex_addr ex_rma_am_caps 0,
      (ex_addr ex_rma_am_caps 1)\<lparr>md_flags := {UCT_MD_FLAG_ALLOC}, md_index := 1\<rparr>,
      (ex_addr ex_rma_am_caps 2)\<lparr>md_flags := {UCT_MD_FLAG_ALLOC}, md_index := 2\<rparr>]"

definition ex_alloc_ctx :: ucp_wireup_select_ctx where
  "ex_alloc_ctx = ucp_wireup_select_ctx_init (ex_stack 0) ex_alloc_worker ex_params {}
     ex_alloc_al"

text \<open>Scenario D: the remote entry has no capability at all.\<close>

definition ex_bare_ctx :: "ucp_ep_params \<Rightarrow> ucp_wireup_select_ctx" where
  "ex_bare_ctx prm = ucp_wireup_select_ctx_init (ex_stack 0)
     (ex_worker {UCP_FEATURE_RMA} 1 ex_rma_am_caps 1) prm {} [ex_addr {} 0]"

definition ex_peer_params :: ucp_ep_params where
  "ex_peer_params = \<lparr>field_mask = {UCP_EP_PARAM_FIELD_ERR_HANDLING_MODE},
                      err_mode = UCP_ERR_HANDLING_MODE_PEER\<rparr>"

text \<open>
  Scenario E: one resource and three reachable remote entries of rising priority, whose
  scores fall in steps that are each within the tolerance while the two steps together
  are not.
\<close>

definition ex_chain_addr :: "real \<Rightarrow> int \<Rightarrow> ucp_address_entry" where
  "ex_chain_addr lat prio =
     \<lparr>iface_attr = \<lparr>cap_flags = ex_rma_am_caps, overhead = 1, bandwidth = ex_bw,
                     priority = prio, lat_ovh = lat, atomic = atomic_flags_zero\<rparr>,
      md_flags = {UCT_MD_FLAG_REG}, tl_name_csum = 0, md_index = 0, dev_index = 0\<rparr>"

definition ex_chain_al :: "ucp_address_entry list" where
  "ex_chain_al = [ex_chain_addr 1 0, ex_chain_addr (1 + 24 / 1000) 1,
                  ex_chain_addr (1 + 50 / 1000) 2]"

text \<open>
  Scenario F: 65 remote entries. Entry 0 is on the device of the only resource and has no
  capability; entry 64 has the capabilities and is on another device; the entries between
  them have neither.
\<close>

definition ex_wrap_al :: "ucp_address_entry list" where
  "ex_wrap_al = map (\<lambda>i. if i = 0 then ex_addr {} 0
                          else if i = 64 then ex_addr ex_rma_am_caps 5
                          else ex_addr {} 9) [0..<65]"

text \<open>
  Scenario G: a memory-type endpoint with feature TAG; the only pair can do remote memory
  access and tag offload, and no AM lane is required.
\<close>

definition ex_memtype_ctx :: ucp_wireup_select_ctx where
  "ex_memtype_ctx = ucp_wireup_select_ctx_init (ex_stack 0)
     (ex_worker {UCP_FEATURE_TAG} 1 ex_tag_caps 1) ex_params {UCP_EP_INIT_FLAG_MEM_TYPE}
     [ex_addr ex_tag_caps 0]"

definition ex_memtype_final :: ucp_wireup_select_ctx where
  "ex_memtype_final = ex_memtype_ctx
     \<lparr>lane_descs :=
        [\<lparr>ld_rsc_index = 0, ld_addr_index = 0, proxy_lane = 6, dst_md_index = 0,
          usage = 36, am_bw_score = 0, rma_score = 1 / 6096, rma_bw_score = 0,
          amo_score = 0\<rparr>]\<rparr>"

text \<open>
  Scenario H: an endpoint with feature TAG whose only pair can do active messages and tag
  offload; the context before the AM pass and after it.
\<close>

definition ex_tag_ctx :: ucp_wireup_select_ctx where
  "ex_tag_ctx = ucp_wireup_select_ctx_init (ex_stack 0)
     (ex_worker {UCP_FEATURE_TAG} 1 (ex_tag_caps \<union> ex_rma_am_caps) 1) ex_params {}
     [ex_addr (ex_tag_caps \<union> ex_rma_am_caps) 0]"

definition ex_tag_am :: ucp_wireup_select_ctx where
  "ex_tag_am = ex_tag_ctx
     \<lparr>lane_descs :=
        [\<lparr>ld_rsc_index = 0, ld_addr_index = 0, proxy_lane = 6, dst_md_index = 0,
          usage = 1, am_bw_score = 0, rma_score = 0, rma_bw_score = 0,
          amo_score = 0\<rparr>],
      am_info := \<lparr>score = 1 / 3000, addr_index = 0, rsc_index = 0\<rparr>\<rparr>"

text \<open>The definitions of the model, for evaluating it on a concrete input.\<close>

lemmas model_defs =
  UCS_BIT_def ucs_test_all_flags_def ucs_for_each_bit_def ucs_popcount_def
  UCP_WIREUP_LANE_USAGE_AM_def UCP_WIREUP_LANE_USAGE_AM_BW_def UCP_WIREUP_LANE_USAGE_RMA_def
  UCP_WIREUP_LANE_USAGE_RMA_BW_def UCP_WIREUP_LANE_USAGE_AMO_def UCP_WIREUP_LANE_USAGE_TAG_def
  UCP_WORKER_UCT_RECV_EVENT_CAP_FLAGS_def UCP_WORKER_UCT_UNSIG_EVENT_CAP_FLAGS_def
  num_tls_def ucp_worker_iface_get_attr_def num_lanes_def address_count_def
  ucp_calc_epsilon_def ucs_signum_def ucp_wireup_score_cmp_def
  remote_addr_ok_def local_rsc_ok_def pair_score_def pair_priority_def select_best_init_def
  ucp_wireup_select_transport_def
  update_score_def out_add_lane_def ucp_wireup_add_lane_desc_def
  lane_score_def UCP_WIREUP_COMPARE_SCORE_def ucp_wireup_unset_tl_by_md_def
  memaccess_loop.simps memaccess_out_def ucp_wireup_add_memaccess_lanes_def
  ucp_wireup_tl_iface_latency_def ucp_wireup_rma_score_func_def ucp_wireup_amo_score_func_def
  ucp_wireup_am_score_func_def UCP_WIREUP_RMA_BW_TEST_MSG_SIZE_def
  ucp_wireup_rma_bw_score_func_def ucp_wireup_am_bw_score_func_def ucp_wireup_aux_score_func_def
  atomic_flags_zero_def ucp_wireup_ep_params_is_err_mode_peer_def
  ucp_wireup_fill_ep_params_criteria_def ucp_wireup_fill_aux_criteria_def
  ucp_wireup_allow_am_emulation_layer_def ucp_ep_get_context_features_def
  rma_criteria_def ucp_wireup_add_rma_lanes_def amo_criteria_def amo_tl_bitmap_def
  ucp_wireup_add_amo_lanes_def ucp_wireup_is_lane_proxy_def ucp_wireup_is_am_required_def
  am_criteria_def ucp_wireup_add_am_lane_def ucp_wireup_is_rsc_self_or_shm_def
  bw_lanes_loop.simps ucp_wireup_add_bw_lanes_def am_bw_criteria_def
  ucp_wireup_add_am_bw_lanes_def rma_bw_criteria_def rma_bw_info_def
  ucp_wireup_add_rma_bw_lanes_def tag_criteria_def ucp_wireup_add_tag_lane_def
  ucp_wireup_select_ctx_init_def ucp_wireup_search_lanes_def
  ucp_wireup_select_wireup_msg_lane_def ucs_qsort_r_def qsort_range_def
  construct_lane_step_def ucp_wireup_construct_lanes_def ucp_wireup_select_lanes_def
  Let_def upt_conv_Cons

lemmas ex_defs =
  ex_K_def ex_bw_def ex_iface_def ex_rsc_def ex_md_def ex_context_def ex_worker_def
  ex_addr_def ex_params_def ex_stack_def ex_key_def ex_rma_am_caps_def ex_tag_caps_def
  ex_merge_ctx_def ex_proxy_ctx_def ex_rails_ctx_def ex_addr_indices_def
  ex_alloc_worker_def ex_alloc_al_def ex_alloc_ctx_def ex_bare_ctx_def ex_peer_params_def
  ex_chain_addr_def ex_chain_al_def ex_wrap_al_def
  ex_memtype_ctx_def ex_memtype_final_def ex_tag_ctx_def ex_tag_am_def
  mask_eq_exp_minus_1

subsection \<open>Runs of the search on the concrete inputs\<close>

definition ex_merge_final :: ucp_wireup_select_ctx where
  "ex_merge_final = ex_merge_ctx
     \<lparr>lane_descs :=
        [\<lparr>ld_rsc_index = 0, ld_addr_index = 0, proxy_lane = 6, dst_md_index = 0,
          usage = 5, am_bw_score = 0, rma_score = 1 / 6096, rma_bw_score = 0,
          amo_score = 0\<rparr>],
      am_info := \<lparr>score = 1 / 3000, addr_index = 0, rsc_index = 0\<rparr>\<rparr>"

definition ex_proxy_final :: ucp_wireup_select_ctx where
  "ex_proxy_final = ex_proxy_ctx
     \<lparr>lane_descs :=
        [\<lparr>ld_rsc_index = 0, ld_addr_index = 0, proxy_lane = 6, dst_md_index = 0,
          usage = 4, am_bw_score = 0, rma_score = 1 / 6096, rma_bw_score = 0,
          amo_score = 0\<rparr>,
         \<lparr>ld_rsc_index = 0, ld_addr_index = 0, proxy_lane = 0, dst_md_index = 0,
          usage = 1, am_bw_score = 0, rma_score = 0, rma_bw_score = 0,
          amo_score = 0\<rparr>],
      am_info := \<lparr>score = 1 / 3000, addr_index = 0, rsc_index = 0\<rparr>\<rparr>"

lemma ex_merge_run:
  "ucp_wireup_search_lanes ex_K ex_merge_ctx ex_key = Inr (UCS_OK, ex_merge_final)"
  by (simp add: model_defs ex_defs ex_merge_final_def)

lemma ex_proxy_run:
  "ucp_wireup_search_lanes ex_K ex_proxy_ctx ex_key = Inr (UCS_OK, ex_proxy_final)"
  by (simp add: model_defs ex_defs ex_proxy_final_def)

lemma ex_sentinel: "UCP_MAX_LANES ex_K \<le> UCP_NULL_LANE ex_K"
  by (simp add: ex_K_def)

section \<open>The claims\<close>

subsection \<open>C1: lanes and their (local resource, remote address) pairs\<close>

definition lane_pairs_distinct :: "ucp_wireup_lane_desc list \<Rightarrow> bool" where
  "lane_pairs_distinct descs \<longleftrightarrow>
     distinct (map (\<lambda>d. (ld_rsc_index d, ld_addr_index d)) descs)"

text \<open>
  C1, as stated, fails: when the remote interface wakes up on signaled events only, the
  AM pass appends a proxy lane on the pair that the RMA pass already holds, so the table
  has two lanes with the same (local resource, remote address) pair.
\<close>

theorem lane_pairs_distinct_counterexample:
  "ucp_wireup_search_lanes ex_K ex_proxy_ctx ex_key = Inr (UCS_OK, ex_proxy_final) \<and>
   \<not> lane_pairs_distinct (lane_descs ex_proxy_final)"
  by (simp add: ex_proxy_run) (simp add: lane_pairs_distinct_def ex_proxy_final_def)

text \<open>
  C1, amended: among the lanes that are not proxies (\<open>proxy_lane\<close> is the sentinel) no
  two share the same (local resource, remote address) pair. This holds of the table the
  six passes produce, and every append or merge of \<open>ucp_wireup_add_lane_desc\<close>
  preserves it. The sentinel is no lane index: \<open>UCP_MAX_LANES \<le> UCP_NULL_LANE\<close>.
\<close>

theorem nonproxy_lane_pairs_unique:
  assumes "UCP_MAX_LANES K \<le> UCP_NULL_LANE K"
  shows "(case ucp_wireup_search_lanes K (ucp_wireup_select_ctx_init stack w prm fl al) key of
            Inl a \<Rightarrow> True
          | Inr (st, s) \<Rightarrow> nonproxy_unique K (lane_descs s)) \<and>
         (\<forall>s info dm usg prx s'.
            unique_inv K s \<and> ucp_wireup_add_lane_desc K s info dm usg prx = Inr s' \<longrightarrow>
            unique_inv K s')"
proof
  have init: "unique_inv K (ucp_wireup_select_ctx_init stack w prm fl al)"
    by (simp add: unique_inv_def nonproxy_unique_def ucp_wireup_select_ctx_init_def)
  have "res_ok (\<lambda>a. True) (unique_inv K)
          (ucp_wireup_search_lanes K (ucp_wireup_select_ctx_init stack w prm fl al) key)"
    by (rule search_lanes_inv[OF unique_lane_invariant[OF assms] init])
  then show "case ucp_wireup_search_lanes K (ucp_wireup_select_ctx_init stack w prm fl al) key of
            Inl a \<Rightarrow> True
          | Inr (st, s) \<Rightarrow> nonproxy_unique K (lane_descs s)"
    by (auto simp: res_ok_def unique_inv_def split: sum.splits)
next
  show "\<forall>s info dm usg prx s'.
            unique_inv K s \<and> ucp_wireup_add_lane_desc K s info dm usg prx = Inr s' \<longrightarrow>
            unique_inv K s'"
    using unique_inv_add[OF assms] by blast
qed

theorem nonproxy_lane_pairs_unique_witness:
  "UCP_MAX_LANES ex_K \<le> UCP_NULL_LANE ex_K \<and>
   ucp_wireup_search_lanes ex_K ex_proxy_ctx ex_key = Inr (UCS_OK, ex_proxy_final) \<and>
   nonproxy_unique ex_K (lane_descs ex_proxy_final)"
  using nonproxy_lane_pairs_unique[OF ex_sentinel, of "ex_stack 0"
          "ex_worker {UCP_FEATURE_RMA, UCP_FEATURE_AM} 1 ex_rma_am_caps 1" ex_params "{}"
          "[ex_addr (insert UCT_IFACE_FLAG_EVENT_RECV_SIG ex_rma_am_caps) 0]" ex_key]
    ex_proxy_run ex_sentinel
  by (simp add: ex_proxy_ctx_def)

subsection \<open>C2: where a proxy lane points\<close>

text \<open>
  C2: in the lane table that the passes produce, the \<open>proxy_lane\<close> field of a proxy
  lane is the lane's own index or the index of a non-proxy lane with the same
  (local resource, remote address) pair; every append or merge of
  \<open>ucp_wireup_add_lane_desc\<close> preserves this, also when it repoints a self-proxy at
  the lane it appends. The sentinel is no lane index: \<open>UCP_MAX_LANES \<le> UCP_NULL_LANE\<close>.
\<close>

theorem proxy_lane_target:
  assumes "UCP_MAX_LANES K \<le> UCP_NULL_LANE K"
  shows "(case ucp_wireup_search_lanes K (ucp_wireup_select_ctx_init stack w prm fl al) key of
            Inl a \<Rightarrow> True
          | Inr (st, s) \<Rightarrow> list_all (proxy_lane_ok K (lane_descs s)) [0..<num_lanes s]) \<and>
         (\<forall>s info dm usg prx s'.
            proxy_inv K s \<and> ucp_wireup_add_lane_desc K s info dm usg prx = Inr s' \<longrightarrow>
            proxy_inv K s')"
proof
  have init: "proxy_inv K (ucp_wireup_select_ctx_init stack w prm fl al)"
    by (simp add: proxy_inv_def ucp_wireup_select_ctx_init_def)
  have "res_ok (\<lambda>a. True) (proxy_inv K)
          (ucp_wireup_search_lanes K (ucp_wireup_select_ctx_init stack w prm fl al) key)"
    by (rule search_lanes_inv[OF proxy_lane_invariant[OF assms] init])
  then show "case ucp_wireup_search_lanes K (ucp_wireup_select_ctx_init stack w prm fl al) key of
            Inl a \<Rightarrow> True
          | Inr (st, s) \<Rightarrow> list_all (proxy_lane_ok K (lane_descs s)) [0..<num_lanes s]"
    by (auto simp: res_ok_def proxy_inv_def num_lanes_def list_all_iff split: sum.splits)
next
  show "\<forall>s info dm usg prx s'.
            proxy_inv K s \<and> ucp_wireup_add_lane_desc K s info dm usg prx = Inr s' \<longrightarrow>
            proxy_inv K s'"
    using proxy_inv_add[OF assms] by blast
qed

theorem proxy_lane_target_witness:
  "UCP_MAX_LANES ex_K \<le> UCP_NULL_LANE ex_K \<and>
   ucp_wireup_search_lanes ex_K ex_proxy_ctx ex_key = Inr (UCS_OK, ex_proxy_final) \<and>
   list_all (proxy_lane_ok ex_K (lane_descs ex_proxy_final)) [0..<num_lanes ex_proxy_final] \<and>
   proxy_lane (lane_descs ex_proxy_final ! 1) = 0"
  using proxy_lane_target[OF ex_sentinel, of "ex_stack 0"
          "ex_worker {UCP_FEATURE_RMA, UCP_FEATURE_AM} 1 ex_rma_am_caps 1" ex_params "{}"
          "[ex_addr (insert UCT_IFACE_FLAG_EVENT_RECV_SIG ex_rma_am_caps) 0]" ex_key]
    ex_proxy_run ex_sentinel
  by (simp add: ex_proxy_ctx_def) (simp add: ex_proxy_final_def)

subsection \<open>C10: the assertion on the remote MD index\<close>

lemma rma_bw_md_map_loop_abort:
  "rma_bw_md_map_loop K ctx descs ls m = Inl a \<Longrightarrow> a = Rma_bw_lanes_out_of_bounds"
  by (induction ls arbitrary: m) (auto simp: Let_def split: if_splits)

lemma construct_lanes_abort:
  "ucp_wireup_construct_lanes K s ai key = Inl a \<Longrightarrow> a = Rma_bw_lanes_out_of_bounds"
  by (auto simp: ucp_wireup_construct_lanes_def Let_def split: sum.splits
           dest: rma_bw_md_map_loop_abort)

text \<open>
  C10: every lane of the table carries, as its remote MD index, the MD index of the
  address entry it was selected on, because each pass passes
  \<open>address_list[select_info.addr_index].md_index\<close> to \<open>ucp_wireup_add_lane_desc\<close>.
  So when an addition meets a lane on the same pair the two indices agree, and the
  always-enabled assertion that compares them fails in no run of the selector.
\<close>

theorem dst_md_index_assertion_never_fails:
  "ucp_wireup_select_lanes K stack w prm fl al ai key \<noteq> Inl Assert_dst_md_index \<and>
   (case ucp_wireup_search_lanes K (ucp_wireup_select_ctx_init stack w prm fl al) key of
      Inl a \<Rightarrow> a \<noteq> Assert_dst_md_index
    | Inr (st, s) \<Rightarrow> dst_md_inv s)"
proof -
  let ?r = "ucp_wireup_search_lanes K (ucp_wireup_select_ctx_init stack w prm fl al) key"
  have init: "dst_md_inv (ucp_wireup_select_ctx_init stack w prm fl al)"
    by (simp add: dst_md_inv_def ucp_wireup_select_ctx_init_def)
  have r: "res_ok (\<lambda>a. a \<noteq> Assert_dst_md_index) dst_md_inv ?r"
    by (rule search_lanes_inv[OF dst_md_lane_invariant init])
  then have search: "case ?r of Inl a \<Rightarrow> a \<noteq> Assert_dst_md_index | Inr (st, s) \<Rightarrow> dst_md_inv s"
    by (simp add: res_ok_def)
  have "ucp_wireup_select_lanes K stack w prm fl al ai key \<noteq> Inl Assert_dst_md_index"
  proof
    assume a: "ucp_wireup_select_lanes K stack w prm fl al ai key = Inl Assert_dst_md_index"
    show False
    proof (cases ?r)
      case (Inl b)
      with a search show ?thesis by (simp add: ucp_wireup_select_lanes_def)
    next
      case (Inr x)
      obtain st s where x: "x = (st, s)" by (cases x)
      from a Inr x have "ucp_wireup_construct_lanes K s ai key = Inl Assert_dst_md_index"
        by (auto simp: ucp_wireup_select_lanes_def split: if_splits sum.splits)
      then show ?thesis using construct_lanes_abort by fastforce
    qed
  qed
  with search show ?thesis by simp
qed

theorem dst_md_index_assertion_never_fails_witness:
  "ucp_wireup_select_lanes ex_K (ex_stack 0)
     (ex_worker {UCP_FEATURE_RMA, UCP_FEATURE_AM} 1 ex_rma_am_caps 1) ex_params {}
     [ex_addr ex_rma_am_caps 0] ex_addr_indices ex_key \<noteq> Inl Assert_dst_md_index \<and>
   ucp_wireup_search_lanes ex_K ex_merge_ctx ex_key = Inr (UCS_OK, ex_merge_final) \<and>
   dst_md_inv ex_merge_final \<and>
   map usage (lane_descs ex_merge_final) =
     [UCP_WIREUP_LANE_USAGE_RMA OR UCP_WIREUP_LANE_USAGE_AM]"
  using dst_md_index_assertion_never_fails[of ex_K "ex_stack 0"
          "ex_worker {UCP_FEATURE_RMA, UCP_FEATURE_AM} 1 ex_rma_am_caps 1" ex_params "{}"
          "[ex_addr ex_rma_am_caps 0]" ex_addr_indices ex_key]
    ex_merge_run
  by (simp add: ex_merge_ctx_def)
     (simp add: ex_merge_final_def UCP_WIREUP_LANE_USAGE_RMA_def UCP_WIREUP_LANE_USAGE_AM_def)

subsection \<open>C8: the capacity of the lane array\<close>

text \<open>
  What holds of the model: a run of the search that returns has at most
  \<open>UCP_MAX_LANES\<close> lanes, each with a usage bit. The bound holds only because the
  model aborts where the C code writes past the array.
\<close>

lemma search_lanes_usage:
  "case ucp_wireup_search_lanes K (ucp_wireup_select_ctx_init stack w prm fl al) key of
     Inl a \<Rightarrow> True | Inr (st, s) \<Rightarrow> usage_inv K s"
proof -
  have init: "usage_inv K (ucp_wireup_select_ctx_init stack w prm fl al)"
    by (simp add: usage_inv_def ucp_wireup_select_ctx_init_def)
  have "res_ok (\<lambda>a. True) (usage_inv K)
          (ucp_wireup_search_lanes K (ucp_wireup_select_ctx_init stack w prm fl al) key)"
    by (rule search_lanes_inv[OF usage_lane_invariant init])
  then show ?thesis by (simp add: res_ok_def)
qed

text \<open>
  C8 fails on the code: \<open>ucp_wireup_add_lane_desc\<close> writes \<open>lane_descs[num_lanes]\<close>
  without comparing \<open>num_lanes\<close> with \<open>UCP_MAX_LANES\<close>, and no pass bounds the
  number of lanes by it. With seven network devices and \<open>max_eager_lanes = 7\<close> the AM
  lane and five AM-BW lanes fill the six slots, and the next AM-BW lane is written past
  the end of the array.
\<close>

theorem lane_descs_overflow:
  "ucp_wireup_select_lanes ex_K (ex_stack 0) (ex_worker {UCP_FEATURE_TAG} 7 ex_rma_am_caps 7)
     ex_params {} (map (ex_addr ex_rma_am_caps) [0..<7]) ex_addr_indices ex_key
   = Inl Lane_descs_out_of_bounds"
  by (simp add: model_defs ex_defs)

subsection \<open>C9: determinism\<close>

text \<open>
  C9 fails on the code: \<open>ucp_wireup_select_ctx_init\<close> does not write
  \<open>select_ctx.am_info\<close>, the AM pass returns without writing it when no AM lane is
  required (a memory-type endpoint with no peer-to-peer lane), and the TAG pass then
  compares its candidate with \<open>am_info.score\<close>. Two runs on the same inputs that find
  different values in that stack slot return different keys: with 0 there the tag lane
  is lane 0, with 1 there no tag lane is selected.
\<close>

theorem select_lanes_reads_uninitialised_am_info:
  "ucp_wireup_select_lanes ex_K (ex_stack 0) (ex_worker {UCP_FEATURE_TAG} 1 ex_tag_caps 1)
     ex_params {UCP_EP_INIT_FLAG_MEM_TYPE} [ex_addr ex_tag_caps 0] ex_addr_indices ex_key
   \<noteq>
   ucp_wireup_select_lanes ex_K (ex_stack 1) (ex_worker {UCP_FEATURE_TAG} 1 ex_tag_caps 1)
     ex_params {UCP_EP_INIT_FLAG_MEM_TYPE} [ex_addr ex_tag_caps 0] ex_addr_indices ex_key"
  by (simp add: model_defs ex_defs)

subsection \<open>C3: the status of the criteria evaluator and the pair it returns\<close>

text \<open>
  C3, as stated, fails in two ways. Scenario E: the evaluator returns the pair (0, 2)
  although the surviving pair (0, 0) beats it: each of the entries 1 and 2 ties with its
  predecessor within the tolerance and wins on priority, and the tolerance does not
  carry over two steps. Scenario F: with 65 remote entries no pair survives, yet the
  evaluator returns \<open>UCS_OK\<close> with entry 0, which the remote filter rejects: entry 64
  passes the filter and sets the bit 64 mod 64 of the address index map.
\<close>

theorem select_transport_best_pair_counterexample:
  "ucp_wireup_select_transport ex_K (ex_worker {UCP_FEATURE_RMA} 1 ex_rma_am_caps 1)
     ex_chain_al (rma_criteria ex_merge_ctx) (-1) (-1) (-1) (-1)
     = (UCS_OK, \<lparr>score = 1 / 6146, addr_index = 2, rsc_index = 0\<rparr>) \<and>
   surviving_pair (ex_worker {UCP_FEATURE_RMA} 1 ex_rma_am_caps 1) ex_chain_al
     (rma_criteria ex_merge_ctx) (-1) (-1) (-1) (-1) 0 0 \<and>
   beats ex_K (ex_worker {UCP_FEATURE_RMA} 1 ex_rma_am_caps 1) (rma_criteria ex_merge_ctx)
     ex_chain_al (0, 0) (0, 2) \<and>
   length ex_wrap_al = 65 \<and>
   surviving_pairs (ex_worker {UCP_FEATURE_RMA} 1 ex_rma_am_caps 1) ex_wrap_al
     (rma_criteria ex_merge_ctx) (-1) (-1) (-1) (-1) = [] \<and>
   ucp_wireup_select_transport ex_K (ex_worker {UCP_FEATURE_RMA} 1 ex_rma_am_caps 1)
     ex_wrap_al (rma_criteria ex_merge_ctx) (-1) (-1) (-1) (-1)
     = (UCS_OK, \<lparr>score = 1 / 6096, addr_index = 0, rsc_index = 0\<rparr>)"
proof (intro conjI)
  let ?w = "ex_worker {UCP_FEATURE_RMA} 1 ex_rma_am_caps 1"
  let ?c = "rma_criteria ex_merge_ctx"
  show "ucp_wireup_select_transport ex_K ?w ex_chain_al ?c (-1) (-1) (-1) (-1)
     = (UCS_OK, \<lparr>score = 1 / 6146, addr_index = 2, rsc_index = 0\<rparr>)"
    by (simp add: model_defs ex_defs)
  show "surviving_pair ?w ex_chain_al ?c (-1) (-1) (-1) (-1) 0 0"
    by (simp add: surviving_pair_def passes_remote_filter_def passes_local_scan_def
          model_defs ex_defs)
  show "beats ex_K ?w ?c ex_chain_al (0, 0) (0, 2)"
    by (simp add: beats_def priority_sum_def model_defs ex_defs)
  show "length ex_wrap_al = 65"
    by (simp add: ex_wrap_al_def)
  show "surviving_pairs ?w ex_wrap_al ?c (-1) (-1) (-1) (-1) = []"
    by (simp add: surviving_pairs_def scan_order_def surviving_pair_def
          passes_remote_filter_def passes_local_scan_def model_defs ex_defs)
  show "ucp_wireup_select_transport ex_K ?w ex_wrap_al ?c (-1) (-1) (-1) (-1)
     = (UCS_OK, \<lparr>score = 1 / 6096, addr_index = 0, rsc_index = 0\<rparr>)"
    by (simp add: model_defs ex_defs)
qed

text \<open>
  C3, amended. For at most 64 remote entries: if no (local resource, remote entry) pair
  survives the remote filter, the local scan and the reachability test, the evaluator
  returns \<open>UCS_ERR_UNREACHABLE\<close>, and no other error code; if some pair survives it
  returns \<open>UCS_OK\<close> with a surviving pair. With finite scores that pair and its score are
  the running best of the surviving pairs in the order of the scan (ascending resource
  index, then ascending entry index): the first surviving pair, replaced by every later
  one whose score compares greater up to the tolerance, or equal up to the tolerance with
  a greater priority sum modulo 256.
\<close>

theorem select_transport_status_and_running_best:
  assumes "length al \<le> 64"
  shows "(case ucp_wireup_select_transport K w al c tlb md ld rd of
            (st, info) \<Rightarrow>
              if \<exists>r i. surviving_pair w al c tlb md ld rd r i
              then st = UCS_OK \<and>
                   surviving_pair w al c tlb md ld rd (rsc_index info) (addr_index info) \<and>
                   (positive_attrs w al \<longrightarrow>
                      (rsc_index info, addr_index info) =
                        running_best K w c al (hd (surviving_pairs w al c tlb md ld rd))
                          (tl (surviving_pairs w al c tlb md ld rd)) \<and>
                      score info = pair_score w c (rsc_index info) (al ! addr_index info))
              else st = UCS_ERR_UNREACHABLE)"
proof -
  let ?S = "surviving_pairs w al c tlb md ld rd"
  note run = select_transport_running_best[OF assms, of K w c tlb md ld rd]
  have ex: "(\<exists>r i. surviving_pair w al c tlb md ld rd r i) \<longleftrightarrow> ?S \<noteq> []"
  proof
    assume "\<exists>r i. surviving_pair w al c tlb md ld rd r i"
    then obtain r i where "surviving_pair w al c tlb md ld rd r i" by blast
    then have "(r, i) \<in> set ?S" by (simp add: set_surviving_pairs)
    then show "?S \<noteq> []" by auto
  next
    assume "?S \<noteq> []"
    then obtain p where "p \<in> set ?S" by (cases ?S) auto
    then have "surviving_pair w al c tlb md ld rd (fst p) (snd p)"
      by (auto simp: set_surviving_pairs)
    then show "\<exists>r i. surviving_pair w al c tlb md ld rd r i" by blast
  qed
  show ?thesis
  proof (cases ?S)
    case Nil
    with run have "ucp_wireup_select_transport K w al c tlb md ld rd =
        (UCS_ERR_UNREACHABLE, \<lparr>score = 0, addr_index = 0, rsc_index = 0\<rparr>)"
      by simp
    moreover from Nil ex have "\<not> (\<exists>r i. surviving_pair w al c tlb md ld rd r i)" by simp
    ultimately show ?thesis by simp
  next
    case (Cons p ps)
    let ?q = "running_best K w c al p ps"
    have "?q \<in> set (p # ps)"
      by (induction ps arbitrary: p) auto
    then have "?q \<in> set ?S"
      using Cons by simp
    then have sv: "surviving_pair w al c tlb md ld rd (fst ?q) (snd ?q)"
      by (auto simp: set_surviving_pairs)
    from Cons run have r: "ucp_wireup_select_transport K w al c tlb md ld rd =
        (UCS_OK, \<lparr>score = pair_score w c (fst ?q) (al ! snd ?q),
                  addr_index = snd ?q, rsc_index = fst ?q\<rparr>)"
      by simp
    from Cons ex have e: "\<exists>r i. surviving_pair w al c tlb md ld rd r i" by simp
    have ht: "hd ?S = p" "tl ?S = ps" using Cons by simp_all
    show ?thesis
      unfolding r ht using e sv by simp
  qed
qed

theorem select_transport_status_and_running_best_witness:
  "length ex_chain_al \<le> 64 \<and>
   positive_attrs (ex_worker {UCP_FEATURE_RMA} 1 ex_rma_am_caps 1) ex_chain_al \<and>
   surviving_pairs (ex_worker {UCP_FEATURE_RMA} 1 ex_rma_am_caps 1) ex_chain_al
     (rma_criteria ex_merge_ctx) (-1) (-1) (-1) (-1) = [(0, 0), (0, 1), (0, 2)] \<and>
   running_best ex_K (ex_worker {UCP_FEATURE_RMA} 1 ex_rma_am_caps 1)
     (rma_criteria ex_merge_ctx) ex_chain_al (0, 0) [(0, 1), (0, 2)] = (0, 2) \<and>
   ucp_wireup_select_transport ex_K (ex_worker {UCP_FEATURE_RMA} 1 ex_rma_am_caps 1)
     ex_chain_al (rma_criteria ex_merge_ctx) (-1) (-1) (-1) (-1)
     = (UCS_OK, \<lparr>score = 1 / 6146, addr_index = 2, rsc_index = 0\<rparr>) \<and>
   fst (ucp_wireup_select_transport ex_K (ex_worker {UCP_FEATURE_RMA} 1 ex_rma_am_caps 1)
     [ex_addr {} 0] (rma_criteria ex_merge_ctx) (-1) (-1) (-1) (-1)) = UCS_ERR_UNREACHABLE"
proof -
  let ?w = "ex_worker {UCP_FEATURE_RMA} 1 ex_rma_am_caps 1"
  let ?c = "rma_criteria ex_merge_ctx"
  have len: "length ex_chain_al \<le> 64" "length [ex_addr {} 0] \<le> 64"
    by (simp_all add: ex_chain_al_def)
  have pos: "positive_attrs ?w ex_chain_al"
    by (simp add: positive_attrs_def ex_defs)
  have sp: "surviving_pairs ?w ex_chain_al ?c (-1) (-1) (-1) (-1) = [(0, 0), (0, 1), (0, 2)]"
    by (simp add: surviving_pairs_def scan_order_def surviving_pair_def
          passes_remote_filter_def passes_local_scan_def model_defs ex_defs)
  have "(0, 0) \<in> set (surviving_pairs ?w ex_chain_al ?c (-1) (-1) (-1) (-1))"
    unfolding sp by simp
  then have ex: "\<exists>r i. surviving_pair ?w ex_chain_al ?c (-1) (-1) (-1) (-1) r i"
    unfolding set_surviving_pairs by blast
  have none: "\<not> (\<exists>r i. surviving_pair ?w [ex_addr {} 0] ?c (-1) (-1) (-1) (-1) r i)"
    by (auto simp: surviving_pair_def passes_remote_filter_def model_defs ex_defs)
  have rb: "running_best ex_K ?w ?c ex_chain_al (0, 0) [(0, 1), (0, 2)] = (0, 2)"
    by (simp add: beats_def priority_sum_def model_defs ex_defs)
  have ps: "pair_score ?w ?c 0 (ex_chain_al ! 2) = 1 / 6146"
    by (simp add: model_defs ex_defs)
  obtain st info where run:
    "ucp_wireup_select_transport ex_K ?w ex_chain_al ?c (-1) (-1) (-1) (-1) = (st, info)"
    by (cases "ucp_wireup_select_transport ex_K ?w ex_chain_al ?c (-1) (-1) (-1) (-1)")
  have "st = UCS_OK \<and> (rsc_index info, addr_index info) = (0, 2) \<and>
        score info = pair_score ?w ?c (rsc_index info) (ex_chain_al ! addr_index info)"
    using select_transport_status_and_running_best[OF len(1), where K = ex_K and w = ?w and c = ?c
        and tlb = "-1" and md = "-1" and ld = "-1" and rd = "-1"]
    unfolding run sp using ex pos rb
    by (simp only: if_True prod.case list.sel simp_thms)
  then have "st = UCS_OK" "rsc_index info = 0" "addr_index info = 2" "score info = 1 / 6146"
    using ps by simp_all
  then have r1: "ucp_wireup_select_transport ex_K ?w ex_chain_al ?c (-1) (-1) (-1) (-1)
     = (UCS_OK, \<lparr>score = 1 / 6146, addr_index = 2, rsc_index = 0\<rparr>)"
    unfolding run by (cases info) simp
  obtain st' info' where run':
    "ucp_wireup_select_transport ex_K ?w [ex_addr {} 0] ?c (-1) (-1) (-1) (-1) = (st', info')"
    by (cases "ucp_wireup_select_transport ex_K ?w [ex_addr {} 0] ?c (-1) (-1) (-1) (-1)")
  have "st' = UCS_ERR_UNREACHABLE"
    using select_transport_status_and_running_best[OF len(2), where K = ex_K and w = ?w and c = ?c
        and tlb = "-1" and md = "-1" and ld = "-1" and rd = "-1"]
    unfolding run' using none
    by (simp only: if_False prod.case)
  then have r2: "fst (ucp_wireup_select_transport ex_K ?w [ex_addr {} 0] ?c (-1) (-1) (-1) (-1))
              = UCS_ERR_UNREACHABLE"
    unfolding run' by simp
  show ?thesis using len(1) pos sp rb r1 r2 by (intro conjI)
qed

subsection \<open>C5: the RMA and AMO passes when no transport is found\<close>

text \<open>
  C5: \<open>ucp_wireup_add_memaccess_lanes\<close> places no lane exactly when its first selection,
  the one for registered memory, fails. In that case, if AM emulation is allowed it sets
  \<open>UCP_EP_CREATE_AM_LANE\<close> in the endpoint init flags, changes nothing else and returns
  \<open>UCS_OK\<close>; if it is not allowed it returns the status of the selection and changes
  nothing. When the selection succeeds the pass returns \<open>UCS_OK\<close>, leaves the init flags
  alone and the selected pair has a lane with the usage of the pass. The RMA pass and the
  AMO pass, when they are not skipped, are this function. AM emulation is allowed when
  the endpoint is not a memory-type endpoint and the parameters do not ask for the error
  handling mode PEER.
\<close>

theorem memaccess_failure_falls_back_to_am:
  "(fst (ucp_wireup_select_transport K (ep s) (address_list s)
           (c\<lparr>remote_md_flags := insert UCT_MD_FLAG_REG (remote_md_flags c)\<rparr>)
           tlb (-1) (-1) (-1)) \<noteq> UCS_OK \<longrightarrow>
      ucp_wireup_add_memaccess_lanes K s c tlb usg =
        (if allow_am s
         then Inr (UCS_OK,
                   s\<lparr>ep_init_flags := insert UCP_EP_CREATE_AM_LANE (ep_init_flags s)\<rparr>)
         else Inr (fst (ucp_wireup_select_transport K (ep s) (address_list s)
                     (c\<lparr>remote_md_flags := insert UCT_MD_FLAG_REG (remote_md_flags c)\<rparr>)
                     tlb (-1) (-1) (-1)), s))) \<and>
   (fst (ucp_wireup_select_transport K (ep s) (address_list s)
           (c\<lparr>remote_md_flags := insert UCT_MD_FLAG_REG (remote_md_flags c)\<rparr>)
           tlb (-1) (-1) (-1)) = UCS_OK \<longrightarrow>
      (case ucp_wireup_add_memaccess_lanes K s c tlb usg of
         Inl a \<Rightarrow> True
       | Inr (st, s') \<Rightarrow>
           st = UCS_OK \<and> ep_init_flags s' = ep_init_flags s \<and>
           lane_present usg s'
             (snd (ucp_wireup_select_transport K (ep s) (address_list s)
                (c\<lparr>remote_md_flags := insert UCT_MD_FLAG_REG (remote_md_flags c)\<rparr>)
                tlb (-1) (-1) (-1))))) \<and>
   (UCP_FEATURE_RMA \<in> ucp_ep_get_context_features (ep s) \<or>
    UCP_EP_INIT_FLAG_MEM_TYPE \<in> ep_init_flags s \<longrightarrow>
      ucp_wireup_add_rma_lanes K s =
        ucp_wireup_add_memaccess_lanes K s (rma_criteria s) (-1) UCP_WIREUP_LANE_USAGE_RMA) \<and>
   ((UCP_FEATURE_AMO32 \<in> config_features (wcontext (ep s)) \<or>
     UCP_FEATURE_AMO64 \<in> config_features (wcontext (ep s))) \<and>
    UCP_EP_INIT_FLAG_MEM_TYPE \<notin> ep_init_flags s \<longrightarrow>
      ucp_wireup_add_amo_lanes K s =
        ucp_wireup_add_memaccess_lanes K s (amo_criteria s) (amo_tl_bitmap (ep s))
          UCP_WIREUP_LANE_USAGE_AMO) \<and>
   (allow_am (ucp_wireup_select_ctx_init stack w prm fl al) \<longleftrightarrow>
      UCP_EP_INIT_FLAG_MEM_TYPE \<notin> fl \<and>
      \<not> (UCP_EP_PARAM_FIELD_ERR_HANDLING_MODE \<in> field_mask prm \<and>
         err_mode prm = UCP_ERR_HANDLING_MODE_PEER))"
proof (intro conjI impI)
  let ?sel = "ucp_wireup_select_transport K (ep s) (address_list s)
                (c\<lparr>remote_md_flags := insert UCT_MD_FLAG_REG (remote_md_flags c)\<rparr>)
                tlb (-1) (-1) (-1)"
  show "ucp_wireup_add_memaccess_lanes K s c tlb usg =
        (if allow_am s
         then Inr (UCS_OK,
                   s\<lparr>ep_init_flags := insert UCP_EP_CREATE_AM_LANE (ep_init_flags s)\<rparr>)
         else Inr (fst ?sel, s))"
    if "fst ?sel \<noteq> UCS_OK"
    by (rule add_memaccess_lanes_failed[OF that])
  show "case ucp_wireup_add_memaccess_lanes K s c tlb usg of
         Inl a \<Rightarrow> True
       | Inr (st, s') \<Rightarrow>
           st = UCS_OK \<and> ep_init_flags s' = ep_init_flags s \<and> lane_present usg s' (snd ?sel)"
    if ok: "fst ?sel = UCS_OK"
  proof -
    obtain reg where sel: "?sel = (UCS_OK, reg)"
      using ok by (cases ?sel) simp
    let ?infos = "reg # alloc_selections K (ep s) (address_list s)
                      (c\<lparr>remote_md_flags := insert UCT_MD_FLAG_ALLOC (remote_md_flags c)\<rparr>)
                      (score reg)
                      (ucp_wireup_unset_tl_by_md (ep s) tlb (rsc_index reg),
                       (-1) AND NOT (UCS_BIT (md_index (address_list s ! addr_index reg))))"
    note eq = add_memaccess_lanes_OK[OF sel, of usg]
    show ?thesis
    proof (cases "add_lanes K usg ?infos s")
      case (Inl a)
      then show ?thesis unfolding eq by simp
    next
      case (Inr s')
      have "ep_init_flags s' = ep_init_flags s"
        using add_lanes_fields[OF Inr] by simp
      moreover have "lane_present usg s' reg"
        by (rule add_lanes_present[OF Inr]) simp
      ultimately show ?thesis unfolding eq Inr sel by simp
    qed
  qed
  show "ucp_wireup_add_rma_lanes K s =
        ucp_wireup_add_memaccess_lanes K s (rma_criteria s) (-1) UCP_WIREUP_LANE_USAGE_RMA"
    if "UCP_FEATURE_RMA \<in> ucp_ep_get_context_features (ep s) \<or>
        UCP_EP_INIT_FLAG_MEM_TYPE \<in> ep_init_flags s"
    using that by (auto simp: ucp_wireup_add_rma_lanes_def)
  show "ucp_wireup_add_amo_lanes K s =
        ucp_wireup_add_memaccess_lanes K s (amo_criteria s) (amo_tl_bitmap (ep s))
          UCP_WIREUP_LANE_USAGE_AMO"
    if "(UCP_FEATURE_AMO32 \<in> config_features (wcontext (ep s)) \<or>
         UCP_FEATURE_AMO64 \<in> config_features (wcontext (ep s))) \<and>
        UCP_EP_INIT_FLAG_MEM_TYPE \<notin> ep_init_flags s"
    using that by (auto simp: ucp_wireup_add_amo_lanes_def)
  show "allow_am (ucp_wireup_select_ctx_init stack w prm fl al) \<longleftrightarrow>
      UCP_EP_INIT_FLAG_MEM_TYPE \<notin> fl \<and>
      \<not> (UCP_EP_PARAM_FIELD_ERR_HANDLING_MODE \<in> field_mask prm \<and>
         err_mode prm = UCP_ERR_HANDLING_MODE_PEER)"
    by (simp add: ucp_wireup_select_ctx_init_def ucp_wireup_allow_am_emulation_layer_def
          ucp_wireup_ep_params_is_err_mode_peer_def)
qed

theorem memaccess_failure_falls_back_to_am_witness:
  "fst (ucp_wireup_select_transport ex_K (ep (ex_bare_ctx ex_params))
          (address_list (ex_bare_ctx ex_params))
          ((rma_criteria (ex_bare_ctx ex_params))
             \<lparr>remote_md_flags := insert UCT_MD_FLAG_REG
                (remote_md_flags (rma_criteria (ex_bare_ctx ex_params)))\<rparr>)
          (-1) (-1) (-1) (-1)) \<noteq> UCS_OK \<and>
   allow_am (ex_bare_ctx ex_params) \<and>
   ucp_wireup_add_rma_lanes ex_K (ex_bare_ctx ex_params) =
     Inr (UCS_OK, (ex_bare_ctx ex_params)\<lparr>ep_init_flags := {UCP_EP_CREATE_AM_LANE}\<rparr>) \<and>
   \<not> allow_am (ex_bare_ctx ex_peer_params) \<and>
   ucp_wireup_add_rma_lanes ex_K (ex_bare_ctx ex_peer_params) =
     Inr (UCS_ERR_UNREACHABLE, ex_bare_ctx ex_peer_params) \<and>
   ucp_wireup_add_rma_lanes ex_K ex_merge_ctx =
     Inr (UCS_OK, ex_merge_ctx\<lparr>lane_descs :=
        [\<lparr>ld_rsc_index = 0, ld_addr_index = 0, proxy_lane = 6, dst_md_index = 0,
          usage = 4, am_bw_score = 0, rma_score = 1 / 6096, rma_bw_score = 0,
          amo_score = 0\<rparr>]\<rparr>)"
proof -
  let ?s = "ex_bare_ctx ex_params"
  let ?p = "ex_bare_ctx ex_peer_params"
  have f1: "fst (ucp_wireup_select_transport ex_K (ep ?s) (address_list ?s)
          ((rma_criteria ?s)\<lparr>remote_md_flags := insert UCT_MD_FLAG_REG
                (remote_md_flags (rma_criteria ?s))\<rparr>) (-1) (-1) (-1) (-1)) \<noteq> UCS_OK"
    by (simp add: model_defs ex_defs)
  have f2: "fst (ucp_wireup_select_transport ex_K (ep ?p) (address_list ?p)
          ((rma_criteria ?p)\<lparr>remote_md_flags := insert UCT_MD_FLAG_REG
                (remote_md_flags (rma_criteria ?p))\<rparr>) (-1) (-1) (-1) (-1))
          = UCS_ERR_UNREACHABLE"
    by (simp add: model_defs ex_defs)
  have a1: "allow_am ?s" and a2: "\<not> allow_am ?p"
    by (simp_all add: model_defs ex_defs)
  have rma1: "UCP_FEATURE_RMA \<in> ucp_ep_get_context_features (ep ?s)"
    and rma2: "UCP_FEATURE_RMA \<in> ucp_ep_get_context_features (ep ?p)"
    by (simp_all add: model_defs ex_defs)
  have fl: "ep_init_flags ?s = {}"
    by (simp add: model_defs ex_defs)
  note t1 = memaccess_failure_falls_back_to_am[where K = ex_K and s = ?s
      and c = "rma_criteria ?s" and tlb = "-1" and usg = UCP_WIREUP_LANE_USAGE_RMA]
  note t2 = memaccess_failure_falls_back_to_am[where K = ex_K and s = ?p
      and c = "rma_criteria ?p" and tlb = "-1" and usg = UCP_WIREUP_LANE_USAGE_RMA]
  have r1: "ucp_wireup_add_rma_lanes ex_K ?s =
     Inr (UCS_OK, ?s\<lparr>ep_init_flags := {UCP_EP_CREATE_AM_LANE}\<rparr>)"
    using t1 f1 a1 rma1 fl by simp
  have r2: "ucp_wireup_add_rma_lanes ex_K ?p = Inr (UCS_ERR_UNREACHABLE, ?p)"
    using t2 f2 a2 rma2 by simp
  have r3: "ucp_wireup_add_rma_lanes ex_K ex_merge_ctx =
     Inr (UCS_OK, ex_merge_ctx\<lparr>lane_descs :=
        [\<lparr>ld_rsc_index = 0, ld_addr_index = 0, proxy_lane = 6, dst_md_index = 0,
          usage = 4, am_bw_score = 0, rma_score = 1 / 6096, rma_bw_score = 0,
          amo_score = 0\<rparr>]\<rparr>)"
    by (simp add: model_defs ex_defs)
  show ?thesis using f1 a1 r1 a2 r2 r3 by (intro conjI)
qed

subsection \<open>C6: when the TAG pass adds a lane\<close>




end
